theory Spec2Isabelle
  imports Complex_Main "HOL-Library.Word" "HOL-Library.AList"
begin

section \<open>Hybrid chain/quorum replication: data model\<close>

text \<open>
  Node and peer identifiers are \<open>uint32_t\<close>; timestamps, proposal numbers and the atomic
  counters are 64 bits wide (\<open>uint64_t\<close>, \<open>size_t\<close>) and wrap around. Lengths of
  vectors are natural numbers. Values of type \<open>double\<close> are real numbers: quotients and
  sums are exact, where the program rounds.

  Every method is a function from the state before the call to the state after it, with
  the method's result in front. A method that runs under a mutex is one step. The clock
  is an input: a call takes the reading \<open>now\<close> for every time stamp it makes, and the
  duration it measures as a further argument. Log output is left out.
\<close>

type_synonym node_id = "32 word"
type_synonym u64 = "64 word"

subsection \<open>Message envelope (include/core/message.h)\<close>

text \<open>
  The enumerators of \<open>MessageType\<close> in declaration order. The coordinators also use
  \<open>CHAIN_FORWARD\<close> and \<open>CHAIN_ACK\<close>, which the header under include/ does not list.
\<close>

datatype MessageType =
    READ_REQUEST | READ_RESPONSE | WRITE_REQUEST | WRITE_RESPONSE
  | HEARTBEAT | NODE_FAILURE | NODE_RECOVERY | CHAIN_UPDATE
  | QUORUM_PREPARE | QUORUM_PROMISE | QUORUM_ACCEPT | QUORUM_ACCEPTED
  | QUORUM_COMMIT | QUORUM_ABORT | MODE_SWITCH | CACHE_UPDATE
  | BATCH_REQUEST | BATCH_RESPONSE | CHAIN_FORWARD | CHAIN_ACK

datatype ReplicationMode = CHAIN_ONLY | QUORUM_ONLY | HYBRID_AUTO

record Message =
  mtype :: MessageType
  sender_id :: node_id
  receiver_id :: node_id
  key :: string
  mvalue :: string
  success :: bool
  timestamp :: u64
  sequence_number :: "32 word"
  correlation_id :: string
  target_nodes :: "node_id list"
  metadata :: string

text \<open>The default constructor \<open>Message()\<close>.\<close>

definition Message_init :: Message where
  "Message_init =
     \<lparr> mtype = READ_REQUEST, sender_id = 0, receiver_id = 0, key = [], mvalue = [],
       success = False, timestamp = 0, sequence_number = 0, correlation_id = [],
       target_nodes = [], metadata = [] \<rparr>"

text \<open>
  Modelled from the spec: the methods \<open>Message::is_read_operation\<close> and
  \<open>Message::is_write_operation\<close> are called by the coordinators but declared in no
  header of the sources; a read operation is a request of kind \<open>READ_REQUEST\<close>, a write
  operation one of kind \<open>WRITE_REQUEST\<close>.
\<close>

definition is_read_operation :: "Message \<Rightarrow> bool" where
  "is_read_operation m = (mtype m = READ_REQUEST)"

definition is_write_operation :: "Message \<Rightarrow> bool" where
  "is_write_operation m = (mtype m = WRITE_REQUEST)"

subsection \<open>Node: local store and outbound messages (src/core/node.cpp)\<close>

record Node =
  node_id :: node_id
  data_store :: "string \<rightharpoonup> string"
  operation_count :: u64
  success_count :: u64
  sent :: "(node_id \<times> Message) list"

definition Node_read :: "Node \<Rightarrow> string \<Rightarrow> string option \<times> Node" where
  "Node_read n k =
     (case data_store n k of
        Some v \<Rightarrow> (Some v, n\<lparr>operation_count := operation_count n + 1,
                               success_count := success_count n + 1\<rparr>)
      | None \<Rightarrow> (None, n\<lparr>operation_count := operation_count n + 1\<rparr>))"

definition Node_write :: "Node \<Rightarrow> string \<Rightarrow> string \<Rightarrow> bool \<times> Node" where
  "Node_write n k v =
     (True, n\<lparr>data_store := (data_store n)(k \<mapsto> v),
               operation_count := operation_count n + 1,
               success_count := success_count n + 1\<rparr>)"

definition send_message :: "Node \<Rightarrow> node_id \<Rightarrow> Message \<Rightarrow> Node" where
  "send_message n target m = n\<lparr>sent := sent n @ [(target, m)]\<rparr>"

section \<open>Quorum coordinator (quorum_replication.h, quorum_replication.cpp)\<close>

datatype QuorumPhase = PREPARE | ACCEPT | COMMIT

record QuorumState =
  proposal_number :: u64
  phase :: QuorumPhase
  qs_key :: string
  qs_value :: string
  promised_nodes :: "node_id set"
  accepted_nodes :: "node_id set"
  start_time :: u64

definition has_majority :: "QuorumState \<Rightarrow> nat \<Rightarrow> bool" where
  "has_majority p total_nodes =
     (let required = total_nodes div 2 + 1 in card (promised_nodes p) \<ge> required)"

definition has_accept_majority :: "QuorumState \<Rightarrow> nat \<Rightarrow> bool" where
  "has_accept_majority p total_nodes =
     (let required = total_nodes div 2 + 1 in card (accepted_nodes p) \<ge> required)"

record QuorumReplication =
  quorum_nodes :: "node_id list"
  quorum_size :: nat
  next_proposal_number :: u64
  fast_quorum_enabled :: bool
  read_optimization_enabled :: bool
  adaptive_quorum_enabled :: bool
  operation_timeout :: u64
  active_proposals :: "u64 \<rightharpoonup> QuorumState"
  successful_consensus :: u64
  failed_consensus :: u64
  consensus_times :: "u64 list"

text \<open>The constructor.\<close>

definition QuorumReplication_init :: "node_id list \<Rightarrow> QuorumReplication" where
  "QuorumReplication_init nodes =
     \<lparr> quorum_nodes = nodes, quorum_size = length nodes div 2 + 1,
       next_proposal_number = 1, fast_quorum_enabled = True,
       read_optimization_enabled = True, adaptive_quorum_enabled = True,
       operation_timeout = 5000, active_proposals = Map.empty,
       successful_consensus = 0, failed_consensus = 0, consensus_times = [] \<rparr>"

definition update_quorum_nodes :: "QuorumReplication \<Rightarrow> node_id list \<Rightarrow> QuorumReplication" where
  "update_quorum_nodes q new_nodes =
     q\<lparr>quorum_nodes := new_nodes, quorum_size := length new_nodes div 2 + 1\<rparr>"

definition is_in_quorum :: "QuorumReplication \<Rightarrow> node_id \<Rightarrow> bool" where
  "is_in_quorum q n = (n \<in> set (quorum_nodes q))"

text \<open>
  \<open>get_consensus_success_rate\<close>: the counters are added in \<open>size_t\<close>; the quotient is a
  \<open>double\<close>.
\<close>

definition get_consensus_success_rate :: "QuorumReplication \<Rightarrow> real" where
  "get_consensus_success_rate q =
     (let total = successful_consensus q + failed_consensus q in
      if total = 0 then 0
      else real (unat (successful_consensus q)) / real (unat total))"

definition calculate_optimal_quorum_size :: "QuorumReplication \<Rightarrow> nat" where
  "calculate_optimal_quorum_size q =
     (let base_size = length (quorum_nodes q) div 2 + 1;
          success_rate = get_consensus_success_rate q in
      if success_rate < 0.8 then min (base_size + 1) (length (quorum_nodes q))
      else if success_rate > 0.95 then max (base_size - 1) 3
      else base_size)"

definition adjust_quorum_size_based_on_load :: "QuorumReplication \<Rightarrow> QuorumReplication" where
  "adjust_quorum_size_based_on_load q =
     (let optimal_size = calculate_optimal_quorum_size q in
      if optimal_size \<noteq> quorum_size q \<and> optimal_size \<ge> 3
      then q\<lparr>quorum_size := optimal_size\<rparr> else q)"

text \<open>\<open>std::find\<close> followed by \<open>erase\<close> removes the first occurrence only.\<close>

definition Quorum_handle_node_failure :: "QuorumReplication \<Rightarrow> node_id \<Rightarrow> QuorumReplication" where
  "Quorum_handle_node_failure q failed_node =
     (if failed_node \<in> set (quorum_nodes q) then
        (let nodes' = remove1 failed_node (quorum_nodes q);
             q1 = q\<lparr>quorum_nodes := nodes', quorum_size := length nodes' div 2 + 1\<rparr>
         in if adaptive_quorum_enabled q1 then adjust_quorum_size_based_on_load q1 else q1)
      else q)"

definition Quorum_handle_node_recovery :: "QuorumReplication \<Rightarrow> node_id \<Rightarrow> QuorumReplication" where
  "Quorum_handle_node_recovery q recovered_node =
     (if \<not> is_in_quorum q recovered_node then
        (let nodes' = quorum_nodes q @ [recovered_node]
         in q\<lparr>quorum_nodes := nodes', quorum_size := length nodes' div 2 + 1\<rparr>)
      else q)"

text \<open>Membership changes as a sequence of calls on the coordinator.\<close>

datatype membership_call =
    Failure node_id
  | Recovery node_id
  | UpdateNodes "node_id list"

fun membership_step :: "QuorumReplication \<Rightarrow> membership_call \<Rightarrow> QuorumReplication" where
  "membership_step q (Failure n) = Quorum_handle_node_failure q n"
| "membership_step q (Recovery n) = Quorum_handle_node_recovery q n"
| "membership_step q (UpdateNodes ns) = update_quorum_nodes q ns"

definition membership_run :: "QuorumReplication \<Rightarrow> membership_call list \<Rightarrow> QuorumReplication" where
  "membership_run q calls = foldl membership_step q calls"

subsection \<open>Paxos message handlers\<close>

text \<open>
  Every reading of the clock within one call is the input \<open>now\<close>. A proposal
  number is stored into the 32-bit \<open>sequence_number\<close> of a message and widened again
  when the table of active proposals is searched.
\<close>

definition generate_proposal_number :: "QuorumReplication \<Rightarrow> u64 \<times> QuorumReplication" where
  "generate_proposal_number q =
     (next_proposal_number q, q\<lparr>next_proposal_number := next_proposal_number q + 1\<rparr>)"

definition can_use_fast_path :: "QuorumReplication \<Rightarrow> Message \<Rightarrow> bool" where
  "can_use_fast_path q request =
     (is_read_operation request \<and> key request \<noteq> [] \<and> fast_quorum_enabled q)"

definition select_optimal_quorum_subset :: "QuorumReplication \<Rightarrow> node_id list" where
  "select_optimal_quorum_subset q =
     (if length (quorum_nodes q) \<le> quorum_size q then quorum_nodes q
      else take (quorum_size q) (quorum_nodes q))"

definition send_to_others :: "Node \<Rightarrow> node_id list \<Rightarrow> Message \<Rightarrow> Node" where
  "send_to_others n targets m =
     foldl (\<lambda>n' t. if t \<noteq> node_id n' then send_message n' t m else n') n targets"

definition send_prepare_messages ::
  "Node \<Rightarrow> QuorumReplication \<Rightarrow> u64 \<Rightarrow> u64 \<Rightarrow> string \<Rightarrow> bool \<times> Node" where
  "send_prepare_messages n q now pn k =
     (let prepare_msg = Message_init\<lparr>mtype := QUORUM_PREPARE, sender_id := node_id n,
            timestamp := now, sequence_number := ucast pn, key := k\<rparr>;
          targets = (if adaptive_quorum_enabled q then select_optimal_quorum_subset q
                     else quorum_nodes q)
      in (True, send_to_others n targets prepare_msg))"

definition send_accept_messages ::
  "Node \<Rightarrow> QuorumReplication \<Rightarrow> u64 \<Rightarrow> u64 \<Rightarrow> string \<Rightarrow> string \<Rightarrow> bool \<times> Node" where
  "send_accept_messages n q now pn k v =
     (let accept_msg = Message_init\<lparr>mtype := QUORUM_ACCEPT, sender_id := node_id n,
            timestamp := now, sequence_number := ucast pn, key := k, mvalue := v\<rparr>
      in (True, send_to_others n (quorum_nodes q) accept_msg))"

definition handle_prepare :: "Node \<Rightarrow> u64 \<Rightarrow> Message \<Rightarrow> Node" where
  "handle_prepare n now message =
     send_message n (sender_id message)
       (Message_init\<lparr>mtype := QUORUM_PROMISE, sender_id := node_id n, timestamp := now,
          sequence_number := sequence_number message, success := True\<rparr>)"

definition handle_promise ::
  "Node \<times> QuorumReplication \<Rightarrow> u64 \<Rightarrow> Message \<Rightarrow> Node \<times> QuorumReplication" where
  "handle_promise st now message =
     (case st of (n, q) \<Rightarrow>
        (case active_proposals q (ucast (sequence_number message)) of
           None \<Rightarrow> (n, q)
         | Some p \<Rightarrow>
             (let p1 = p\<lparr>promised_nodes := insert (sender_id message) (promised_nodes p)\<rparr> in
              if has_majority p1 (length (quorum_nodes q)) then
                (let p2 = p1\<lparr>phase := ACCEPT\<rparr>;
                     n' = snd (send_accept_messages n q now (proposal_number p2)
                                 (qs_key p2) (qs_value p2))
                 in (n', q\<lparr>active_proposals :=
                              (active_proposals q)(ucast (sequence_number message) \<mapsto> p2)\<rparr>))
              else (n, q\<lparr>active_proposals :=
                           (active_proposals q)(ucast (sequence_number message) \<mapsto> p1)\<rparr>))))"

definition handle_accept :: "Node \<Rightarrow> u64 \<Rightarrow> Message \<Rightarrow> Node" where
  "handle_accept n now message =
     (let n1 = snd (Node_write n (key message) (mvalue message)) in
      send_message n1 (sender_id message)
        (Message_init\<lparr>mtype := QUORUM_ACCEPTED, sender_id := node_id n1, timestamp := now,
           sequence_number := sequence_number message, success := True\<rparr>))"

definition handle_accepted :: "QuorumReplication \<Rightarrow> Message \<Rightarrow> QuorumReplication" where
  "handle_accepted q message =
     (case active_proposals q (ucast (sequence_number message)) of
        None \<Rightarrow> q
      | Some p \<Rightarrow>
          (let p1 = p\<lparr>accepted_nodes := insert (sender_id message) (accepted_nodes p)\<rparr>;
               p2 = (if has_accept_majority p1 (length (quorum_nodes q))
                     then p1\<lparr>phase := COMMIT\<rparr> else p1)
           in q\<lparr>active_proposals :=
                   (active_proposals q)(ucast (sequence_number message) \<mapsto> p2)\<rparr>))"

subsection \<open>Proposer side: polling loops\<close>

text \<open>
  The proposer polls its proposal under the consensus mutex every 10 ms until the
  deadline. Between two polls other threads may call the coordinator. The model takes
  these calls as an input: \<open>polls\<close> has one entry for every iteration of the loop whose
  clock check passed, holding the calls that completed before that iteration took the
  mutex. The deadline is reached when the list is used up.
\<close>

datatype concurrent_call =
    Prepare Message
  | Promise Message
  | Accept Message
  | Accepted Message
  | NodeFailure node_id
  | NodeRecovery node_id

fun concurrent_step ::
  "u64 \<Rightarrow> Node \<times> QuorumReplication \<Rightarrow> concurrent_call \<Rightarrow> Node \<times> QuorumReplication" where
  "concurrent_step now (n, q) (Prepare m) = (handle_prepare n now m, q)"
| "concurrent_step now (n, q) (Promise m) = handle_promise (n, q) now m"
| "concurrent_step now (n, q) (Accept m) = (handle_accept n now m, q)"
| "concurrent_step now (n, q) (Accepted m) = (n, handle_accepted q m)"
| "concurrent_step now (n, q) (NodeFailure i) = (n, Quorum_handle_node_failure q i)"
| "concurrent_step now (n, q) (NodeRecovery i) = (n, Quorum_handle_node_recovery q i)"

definition run_calls ::
  "u64 \<Rightarrow> Node \<times> QuorumReplication \<Rightarrow> concurrent_call list \<Rightarrow> Node \<times> QuorumReplication" where
  "run_calls now st calls = foldl (concurrent_step now) st calls"

definition erase_proposal :: "QuorumReplication \<Rightarrow> u64 \<Rightarrow> QuorumReplication" where
  "erase_proposal q pn = q\<lparr>active_proposals := (active_proposals q)(pn := None)\<rparr>"

text \<open>
  The loop of \<open>process_read\<close>. The result is the value read on success; \<open>None\<close> stands
  for leaving the loop by the deadline or by \<open>break\<close> (majority reached, key absent).
  On success the proposal is erased inside the loop, otherwise after it.
\<close>

fun read_wait ::
  "u64 \<Rightarrow> u64 \<Rightarrow> u64 \<Rightarrow> string \<Rightarrow> Node \<times> QuorumReplication \<Rightarrow> concurrent_call list list
     \<Rightarrow> string option \<times> Node \<times> QuorumReplication" where
  "read_wait now elapsed pn k (n, q) [] = (None, n, erase_proposal q pn)"
| "read_wait now elapsed pn k (n, q) (calls # polls) =
     (case run_calls now (n, q) calls of (n1, q1) \<Rightarrow>
        (case active_proposals q1 pn of
           None \<Rightarrow> read_wait now elapsed pn k (n1, q1) polls
         | Some p \<Rightarrow>
             if has_majority p (length (quorum_nodes q1)) then
               (case Node_read n1 k of
                  (Some v, n2) \<Rightarrow>
                    (Some v, n2,
                     erase_proposal
                       (q1\<lparr>successful_consensus := successful_consensus q1 + 1,
                           consensus_times := consensus_times q1 @ [elapsed]\<rparr>) pn)
                | (None, n2) \<Rightarrow> (None, n2, erase_proposal q1 pn))
             else read_wait now elapsed pn k (n1, q1) polls))"

text \<open>
  The part of \<open>process_read\<close> between the fast paths and the loop: it draws a proposal
  number, registers the proposal in its \<open>PREPARE\<close> phase and sends the prepare messages.
\<close>

definition begin_read_consensus ::
  "Node \<times> QuorumReplication \<Rightarrow> Message \<Rightarrow> u64 \<Rightarrow> bool \<times> u64 \<times> Node \<times> QuorumReplication" where
  "begin_read_consensus st request now =
     (case st of (n, q) \<Rightarrow>
       (case generate_proposal_number q of (proposal_num, q1) \<Rightarrow>
         (let read_state = \<lparr> proposal_number = proposal_num, phase = PREPARE,
                qs_key = key request, qs_value = [], promised_nodes = {},
                accepted_nodes = {}, start_time = now \<rparr>;
              q2 = q1\<lparr>active_proposals :=
                        (active_proposals q1)(proposal_num \<mapsto> read_state)\<rparr>
          in
          (case send_prepare_messages n q2 now proposal_num (key request) of
             (sent_ok, n2) \<Rightarrow> (sent_ok, proposal_num, n2, q2)))))"

text \<open>The attempt of the read-optimisation fast path: it reads the local store when it applies.\<close>

definition try_fast_read :: "Node \<times> QuorumReplication \<Rightarrow> Message \<Rightarrow> string option \<times> Node" where
  "try_fast_read st request =
     (case st of (n, q) \<Rightarrow>
        if read_optimization_enabled q \<and> can_use_fast_path q request
        then Node_read n (key request) else (None, n))"

definition Quorum_process_read ::
  "Node \<times> QuorumReplication \<Rightarrow> Message \<Rightarrow> Message \<Rightarrow> u64 \<Rightarrow> u64 \<Rightarrow> concurrent_call list list
     \<Rightarrow> bool \<times> Message \<times> Node \<times> QuorumReplication" where
  "Quorum_process_read st request response now elapsed polls =
     (case st of (n, q) \<Rightarrow>
       (let r0 = response\<lparr>mtype := READ_RESPONSE, sender_id := node_id n, timestamp := now,
                   key := key request, sequence_number := sequence_number request\<rparr>
        in
        if length (quorum_nodes q) = 1 then
          (case Node_read n (key request) of
             (Some v, n1) \<Rightarrow>
               (True, r0\<lparr>mvalue := v, success := True\<rparr>, n1,
                q\<lparr>successful_consensus := successful_consensus q + 1\<rparr>)
           | (None, n1) \<Rightarrow>
               (False, r0\<lparr>success := False\<rparr>, n1,
                q\<lparr>failed_consensus := failed_consensus q + 1\<rparr>))
        else
          (case try_fast_read (n, q) request of
             (Some v, n1) \<Rightarrow> (True, r0\<lparr>mvalue := v, success := True\<rparr>, n1, q)
           | (None, n1) \<Rightarrow>
               (case begin_read_consensus (n1, q) request now of
                  (sent_ok, proposal_num, n2, q2) \<Rightarrow>
                    (case (if sent_ok
                           then read_wait now elapsed proposal_num (key request) (n2, q2) polls
                           else (None, n2, q2)) of
                       (Some v, n3, q3) \<Rightarrow> (True, r0\<lparr>mvalue := v, success := True\<rparr>, n3, q3)
                     | (None, n3, q3) \<Rightarrow>
                         (False, r0\<lparr>success := False\<rparr>, n3,
                          q3\<lparr>failed_consensus := failed_consensus q3 + 1\<rparr>))))))"

text \<open>The loop of \<open>initiate_consensus\<close>.\<close>

fun write_wait ::
  "u64 \<Rightarrow> u64 \<Rightarrow> string \<Rightarrow> string \<Rightarrow> Node \<times> QuorumReplication \<Rightarrow> concurrent_call list list
     \<Rightarrow> bool \<times> Node \<times> QuorumReplication" where
  "write_wait now pn k v (n, q) [] = (False, n, erase_proposal q pn)"
| "write_wait now pn k v (n, q) (calls # polls) =
     (case run_calls now (n, q) calls of (n1, q1) \<Rightarrow>
        (case active_proposals q1 pn of
           None \<Rightarrow> write_wait now pn k v (n1, q1) polls
         | Some p \<Rightarrow>
             if phase p = COMMIT \<and> has_accept_majority p (length (quorum_nodes q1)) then
               (True, snd (Node_write n1 k v), erase_proposal q1 pn)
             else write_wait now pn k v (n1, q1) polls))"

definition initiate_consensus ::
  "Node \<times> QuorumReplication \<Rightarrow> string \<Rightarrow> string \<Rightarrow> u64 \<Rightarrow> concurrent_call list list
     \<Rightarrow> bool \<times> Node \<times> QuorumReplication" where
  "initiate_consensus st k v now polls =
     (case st of (n, q) \<Rightarrow>
       (case generate_proposal_number q of (proposal_num, q1) \<Rightarrow>
         (let write_state = \<lparr> proposal_number = proposal_num, phase = PREPARE,
                qs_key = k, qs_value = v, promised_nodes = {},
                accepted_nodes = {}, start_time = now \<rparr>;
              q2 = q1\<lparr>active_proposals :=
                        (active_proposals q1)(proposal_num \<mapsto> write_state)\<rparr>
          in
          (case send_prepare_messages n q2 now proposal_num k of
             (sent_ok, n1) \<Rightarrow>
               if \<not> sent_ok then (False, n1, erase_proposal q2 proposal_num)
               else write_wait now proposal_num k v (n1, q2) polls))))"

definition Quorum_process_write ::
  "Node \<times> QuorumReplication \<Rightarrow> Message \<Rightarrow> Message \<Rightarrow> u64 \<Rightarrow> u64 \<Rightarrow> concurrent_call list list
     \<Rightarrow> bool \<times> Message \<times> Node \<times> QuorumReplication" where
  "Quorum_process_write st request response now elapsed polls =
     (case st of (n, q) \<Rightarrow>
       (let r0 = response\<lparr>mtype := WRITE_RESPONSE, sender_id := node_id n, timestamp := now,
                   key := key request, sequence_number := sequence_number request\<rparr>
        in
        if length (quorum_nodes q) = 1 then
          (case Node_write n (key request) (mvalue request) of
             (ok, n1) \<Rightarrow>
               (ok, r0\<lparr>success := ok\<rparr>, n1,
                if ok then q\<lparr>successful_consensus := successful_consensus q + 1\<rparr>
                else q\<lparr>failed_consensus := failed_consensus q + 1\<rparr>))
        else
          (case initiate_consensus (n, q) (key request) (mvalue request) now polls of
             (ok, n1, q1) \<Rightarrow>
               (ok, r0\<lparr>success := ok\<rparr>, n1,
                if ok then q1\<lparr>consensus_times := consensus_times q1 @ [elapsed],
                               successful_consensus := successful_consensus q1 + 1\<rparr>
                else q1\<lparr>failed_consensus := failed_consensus q1 + 1\<rparr>))))"

subsection \<open>Predicates used to state the membership properties\<close>

fun is_failure_or_recovery :: "membership_call \<Rightarrow> bool" where
  "is_failure_or_recovery (Failure n) = True"
| "is_failure_or_recovery (Recovery n) = True"
| "is_failure_or_recovery (UpdateNodes ns) = False"

definition natural_majority :: "QuorumReplication \<Rightarrow> bool" where
  "natural_majority q = (quorum_size q = length (quorum_nodes q) div 2 + 1)"

subsection \<open>Predicates used to state the polling properties\<close>

text \<open>An acceptor's response reaches the proposer through \<open>handle_promise\<close> or \<open>handle_accepted\<close>.\<close>

fun is_response :: "concurrent_call \<Rightarrow> bool" where
  "is_response (Promise m) = True"
| "is_response (Accepted m) = True"
| "is_response c = False"

text \<open>
  The state in which the loop takes its \<open>i\<close>-th poll (counted from 0), and whether the
  proposal has its majority of promises there.
\<close>

definition state_at_poll ::
  "u64 \<Rightarrow> Node \<times> QuorumReplication \<Rightarrow> concurrent_call list list \<Rightarrow> nat \<Rightarrow> Node \<times> QuorumReplication" where
  "state_at_poll now st polls i = foldl (run_calls now) st (take (Suc i) polls)"


text \<open>
  The same with the threshold written out: at the \<open>i\<close>-th poll the proposal is active and
  its promised nodes number at least half the members of that moment, rounded down, plus
  one; and, for a write, the proposal is in its \<open>COMMIT\<close> phase with that many accepted
  nodes.
\<close>

definition promises_reach_member_majority ::
  "u64 \<Rightarrow> u64 \<Rightarrow> Node \<times> QuorumReplication \<Rightarrow> concurrent_call list list \<Rightarrow> nat \<Rightarrow> bool" where
  "promises_reach_member_majority now pn st polls i =
     (case state_at_poll now st polls i of (n, q) \<Rightarrow>
        (case active_proposals q pn of
           None \<Rightarrow> False
         | Some p \<Rightarrow> length (quorum_nodes q) div 2 + 1 \<le> card (promised_nodes p)))"

definition commit_reaches_member_majority ::
  "u64 \<Rightarrow> u64 \<Rightarrow> Node \<times> QuorumReplication \<Rightarrow> concurrent_call list list \<Rightarrow> nat \<Rightarrow> bool" where
  "commit_reaches_member_majority now pn st polls i =
     (case state_at_poll now st polls i of (n, q) \<Rightarrow>
        (case active_proposals q pn of
           None \<Rightarrow> False
         | Some p \<Rightarrow> phase p = COMMIT
                     \<and> length (quorum_nodes q) div 2 + 1 \<le> card (accepted_nodes p)))"

text \<open>
  The state in which \<open>initiate_consensus\<close> enters its loop: the proposal number drawn, the
  proposal registered in its \<open>PREPARE\<close> phase, the prepare messages sent.
\<close>

definition write_consensus_entry ::
  "Node \<times> QuorumReplication \<Rightarrow> string \<Rightarrow> string \<Rightarrow> u64 \<Rightarrow> Node \<times> QuorumReplication" where
  "write_consensus_entry st k v now =
     (case st of (n, q) \<Rightarrow>
       (case generate_proposal_number q of (proposal_num, q1) \<Rightarrow>
         (let write_state = \<lparr> proposal_number = proposal_num, phase = PREPARE,
                qs_key = k, qs_value = v, promised_nodes = {},
                accepted_nodes = {}, start_time = now \<rparr>;
              q2 = q1\<lparr>active_proposals :=
                        (active_proposals q1)(proposal_num \<mapsto> write_state)\<rparr>
          in (snd (send_prepare_messages n q2 now proposal_num k), q2))))"

section \<open>Chain coordinator (chain_replication.h, chain_replication.cpp)\<close>

record ChainReplication =
  chain_order :: "node_id list"
  my_position :: nat
  batching_enabled :: bool
  batch_size :: nat
  pipelining_enabled :: bool
  write_batch :: "Message list"
  pending_writes :: "u64 \<rightharpoonup> Message"

text \<open>
  \<open>find_my_position\<close>: the index of the first occurrence of the node's own id, or the
  length of the chain when the id is absent.
\<close>

fun index_of :: "node_id \<Rightarrow> node_id list \<Rightarrow> nat" where
  "index_of x [] = 0"
| "index_of x (y # ys) = (if y = x then 0 else Suc (index_of x ys))"

definition find_my_position :: "Node \<Rightarrow> ChainReplication \<Rightarrow> ChainReplication" where
  "find_my_position n c = c\<lparr>my_position := index_of (node_id n) (chain_order c)\<rparr>"

definition ChainReplication_init :: "Node \<Rightarrow> node_id list \<Rightarrow> ChainReplication" where
  "ChainReplication_init n order =
     find_my_position n
       \<lparr> chain_order = order, my_position = 0, batching_enabled = True, batch_size = 10,
         pipelining_enabled = True, write_batch = [], pending_writes = Map.empty \<rparr>"

definition is_head :: "ChainReplication \<Rightarrow> bool" where
  "is_head c = (my_position c = 0 \<and> chain_order c \<noteq> [])"

text \<open>
  \<open>chain_order_.size() - 1\<close> is computed in \<open>size_t\<close>: on the empty chain it is the
  largest value, which no position equals. The subtraction is taken over the integers,
  where the comparison has the same outcome.
\<close>

definition is_tail :: "ChainReplication \<Rightarrow> bool" where
  "is_tail c = (int (my_position c) = int (length (chain_order c)) - 1 \<and> chain_order c \<noteq> [])"

definition get_successor :: "ChainReplication \<Rightarrow> node_id" where
  "get_successor c =
     (if my_position c + 1 < length (chain_order c) then chain_order c ! (my_position c + 1)
      else 0)"

definition get_predecessor :: "ChainReplication \<Rightarrow> node_id" where
  "get_predecessor c =
     (if my_position c > 0 then chain_order c ! (my_position c - 1) else 0)"

definition should_use_fast_path :: "Message \<Rightarrow> bool" where
  "should_use_fast_path request = (is_read_operation request \<and> key request \<noteq> [])"

definition Chain_process_read ::
  "Node \<times> ChainReplication \<Rightarrow> Message \<Rightarrow> Message \<Rightarrow> u64
     \<Rightarrow> bool \<times> Message \<times> Node \<times> ChainReplication" where
  "Chain_process_read st request response now =
     (case st of (n, c) \<Rightarrow>
        if \<not> is_tail c then
          (False, response,
           (if length (chain_order c) > 0 then send_message n (last (chain_order c)) request
            else n), c)
        else
          (let r0 = response\<lparr>mtype := READ_RESPONSE, sender_id := node_id n, timestamp := now,
                      key := key request, sequence_number := sequence_number request\<rparr>
           in case Node_read n (key request) of
                (Some v, n1) \<Rightarrow> (True, r0\<lparr>mvalue := v, success := True\<rparr>, n1, c)
              | (None, n1) \<Rightarrow> (False, r0\<lparr>success := False\<rparr>, n1, c)))"

definition send_ack :: "Node \<times> ChainReplication \<Rightarrow> u64 \<Rightarrow> Message \<Rightarrow> bool \<times> Node" where
  "send_ack st now original_request =
     (case st of (n, c) \<Rightarrow>
       (let ack_msg = Message_init\<lparr>mtype := CHAIN_ACK, sender_id := node_id n, timestamp := now,
              sequence_number := sequence_number original_request, success := True\<rparr>;
            predecessor = get_predecessor c
        in (True, if predecessor \<noteq> 0 then send_message n predecessor ack_msg
                  else send_message n (sender_id original_request) ack_msg)))"

definition forward_write ::
  "Node \<times> ChainReplication \<Rightarrow> u64 \<Rightarrow> Message \<Rightarrow> bool \<times> Node \<times> ChainReplication" where
  "forward_write st now message =
     (case st of (n, c) \<Rightarrow>
       (let successor = get_successor c in
        if successor = 0 then
          (case send_ack (n, c) now message of (ok, n1) \<Rightarrow> (ok, n1, c))
        else
          (True,
           send_message n successor (message\<lparr>mtype := CHAIN_FORWARD, sender_id := node_id n\<rparr>),
           c\<lparr>pending_writes := (pending_writes c)(ucast (sequence_number message) \<mapsto> message)\<rparr>)))"

definition process_write_batch :: "Node \<times> ChainReplication \<Rightarrow> Node \<times> ChainReplication" where
  "process_write_batch st =
     (case st of (n, c) \<Rightarrow>
        if write_batch c = [] then (n, c)
        else
          (let n1 = foldl (\<lambda>n' m. snd (Node_write n' (key m) (mvalue m))) n (write_batch c);
               successor = get_successor c;
               n2 = (if successor \<noteq> 0 then
                       foldl (\<lambda>n' m. send_message n' successor
                                 (m\<lparr>mtype := CHAIN_FORWARD, sender_id := node_id n'\<rparr>))
                         n1 (write_batch c)
                     else n1)
           in (n2, c\<lparr>write_batch := []\<rparr>)))"

definition Chain_process_write ::
  "Node \<times> ChainReplication \<Rightarrow> Message \<Rightarrow> Message \<Rightarrow> u64
     \<Rightarrow> bool \<times> Message \<times> Node \<times> ChainReplication" where
  "Chain_process_write st request response now =
     (case st of (n, c) \<Rightarrow>
       (let r0 = response\<lparr>mtype := WRITE_RESPONSE, sender_id := node_id n, timestamp := now,
                   key := key request, sequence_number := sequence_number request\<rparr>
        in
        if \<not> is_head c then
          (True, r0\<lparr>success := True\<rparr>,
           (if length (chain_order c) > 0 then send_message n (hd (chain_order c)) request
            else n), c)
        else if batching_enabled c \<and> length (write_batch c) < batch_size c then
          (let c1 = c\<lparr>write_batch := write_batch c @ [request]\<rparr>;
               st1 = (if length (write_batch c1) \<ge> batch_size c1
                      then process_write_batch (n, c1) else (n, c1))
           in (True, r0\<lparr>success := True\<rparr>, fst st1, snd st1))
        else
          (case Node_write n (key request) (mvalue request) of
             (ok, n1) \<Rightarrow>
               if ok \<and> length (chain_order c) > 1 then
                 (case forward_write (n1, c) now request of
                    (fwd, n2, c2) \<Rightarrow> (fwd, r0\<lparr>success := fwd\<rparr>, n2, c2))
               else (ok, r0\<lparr>success := ok\<rparr>, n1, c))))"

definition update_chain_order :: "Node \<Rightarrow> ChainReplication \<Rightarrow> node_id list \<Rightarrow> ChainReplication" where
  "update_chain_order n c new_chain = find_my_position n (c\<lparr>chain_order := new_chain\<rparr>)"

definition Chain_handle_node_failure :: "Node \<Rightarrow> ChainReplication \<Rightarrow> node_id \<Rightarrow> ChainReplication" where
  "Chain_handle_node_failure n c failed_node =
     (if failed_node \<in> set (chain_order c)
      then find_my_position n (c\<lparr>chain_order := remove1 failed_node (chain_order c)\<rparr>)
      else c)"

definition Chain_handle_node_recovery :: "Node \<Rightarrow> ChainReplication \<Rightarrow> node_id \<Rightarrow> ChainReplication" where
  "Chain_handle_node_recovery n c recovered_node =
     find_my_position n (c\<lparr>chain_order := chain_order c @ [recovered_node]\<rparr>)"

section \<open>Dispatcher (hybrid_protocol.h, hybrid_protocol.cpp)\<close>

datatype WorkloadPattern = READ_HEAVY | WRITE_HEAVY | BALANCED | BURSTY | UNKNOWN

record AdaptiveMetrics =
  read_write_ratio :: real
  average_latency :: real
  throughput :: real
  network_partition_probability :: real
  active_nodes :: nat
  pattern :: WorkloadPattern

definition AdaptiveMetrics_init :: AdaptiveMetrics where
  "AdaptiveMetrics_init =
     \<lparr> read_write_ratio = 1, average_latency = 0, throughput = 0,
       network_partition_probability = 0, active_nodes = 0, pattern = UNKNOWN \<rparr>"

text \<open>
  The dispatcher and its two coordinators share one node. The members that no method
  modelled here reads or writes are left out (the batches of pending requests and the
  mode switching times). The cache is an
  \<open>unordered_map\<close> from a key to the value and the time it was stored; it is kept as an
  association list with one entry for each key, whose order stands for the iteration
  order of the table. \<open>read_count\<close> and \<open>write_count\<close> are the function-local statics
  of \<open>update_performance_metrics\<close>.
\<close>

record HybridProtocol =
  node :: Node
  chain_protocol :: ChainReplication
  quorum_protocol :: QuorumReplication
  adaptive_switching_enabled :: bool
  current_metrics :: AdaptiveMetrics
  current_mode :: ReplicationMode
  read_preference :: ReplicationMode
  write_preference :: ReplicationMode
  switching_threshold :: real
  intelligent_routing_enabled :: bool
  load_balancing_enabled :: bool
  caching_enabled :: bool
  speculative_execution_enabled :: bool
  request_batching_enabled :: bool
  cache :: "(string \<times> (string \<times> u64)) list"
  cache_ttl :: u64
  chain_operations :: u64
  quorum_operations :: u64
  cache_hits :: u64
  cache_misses :: u64
  read_count :: u64
  write_count :: u64

text \<open>
  The constructor: it builds both coordinators and switches their optimisations on
  (batching and pipelining in the chain; fast quorum, read optimisation and adaptive
  quorum in the quorum coordinator).
\<close>

definition HybridProtocol_init :: "Node \<Rightarrow> node_id list \<Rightarrow> node_id list \<Rightarrow> HybridProtocol" where
  "HybridProtocol_init n chain nodes =
     \<lparr> node = n,
       chain_protocol = (ChainReplication_init n chain)
          \<lparr>batching_enabled := True, pipelining_enabled := True\<rparr>,
       quorum_protocol = (QuorumReplication_init nodes)
          \<lparr>fast_quorum_enabled := True, read_optimization_enabled := True,
           adaptive_quorum_enabled := True\<rparr>,
       adaptive_switching_enabled = True,
       current_metrics = AdaptiveMetrics_init,
       current_mode = HYBRID_AUTO,
       read_preference = CHAIN_ONLY,
       write_preference = QUORUM_ONLY,
       switching_threshold = 0.15,
       intelligent_routing_enabled = True,
       load_balancing_enabled = True,
       caching_enabled = True,
       speculative_execution_enabled = False,
       request_batching_enabled = True,
       cache = [],
       cache_ttl = 30000000,
       chain_operations = 0,
       quorum_operations = 0,
       cache_hits = 0,
       cache_misses = 0,
       read_count = 0,
       write_count = 0 \<rparr>"

definition decide_protocol_for_read :: "HybridProtocol \<Rightarrow> ReplicationMode" where
  "decide_protocol_for_read h =
     (if intelligent_routing_enabled h \<and>
         network_partition_probability (current_metrics h) > 0.2 then CHAIN_ONLY
      else if intelligent_routing_enabled h \<and> pattern (current_metrics h) = READ_HEAVY
      then CHAIN_ONLY
      else read_preference h)"

definition decide_protocol_for_write :: "HybridProtocol \<Rightarrow> ReplicationMode" where
  "decide_protocol_for_write h =
     (if intelligent_routing_enabled h \<and> pattern (current_metrics h) = WRITE_HEAVY
      then QUORUM_ONLY
      else if intelligent_routing_enabled h \<and> pattern (current_metrics h) = BURSTY
      then CHAIN_ONLY
      else write_preference h)"

text \<open>
  \<open>try_cache_read\<close>: the age \<open>current_time - stored_at\<close> is an unsigned 64-bit
  difference. A stale entry is erased.
\<close>

definition try_cache_read :: "HybridProtocol \<Rightarrow> string \<Rightarrow> u64 \<Rightarrow> string option \<times> HybridProtocol" where
  "try_cache_read h k now =
     (case map_of (cache h) k of
        None \<Rightarrow> (None, h)
      | Some (v, stored_at) \<Rightarrow>
          if now - stored_at < cache_ttl h then (Some v, h)
          else (None, h\<lparr>cache := AList.delete k (cache h)\<rparr>))"

text \<open>The entry \<open>update_cache\<close> evicts: the first one in iteration order with the least time.\<close>

fun oldest_entry :: "string \<times> (string \<times> u64) \<Rightarrow> (string \<times> (string \<times> u64)) list
    \<Rightarrow> string \<times> (string \<times> u64)" where
  "oldest_entry oldest [] = oldest"
| "oldest_entry oldest (e # es) =
     oldest_entry (if snd (snd e) < snd (snd oldest) then e else oldest) es"

definition update_cache :: "HybridProtocol \<Rightarrow> string \<Rightarrow> string \<Rightarrow> u64 \<Rightarrow> HybridProtocol" where
  "update_cache h k v now =
     (let cache1 = AList.update k (v, now) (cache h) in
      if length cache1 > 1000 then
        h\<lparr>cache := AList.delete (fst (oldest_entry (hd cache1) cache1)) cache1\<rparr>
      else h\<lparr>cache := cache1\<rparr>)"

text \<open>\<open>latency\<close> is the measured duration of the request in microseconds.\<close>

definition update_performance_metrics ::
  "HybridProtocol \<Rightarrow> Message \<Rightarrow> u64 \<Rightarrow> bool \<Rightarrow> HybridProtocol" where
  "update_performance_metrics h request latency ok =
     (let m1 = (current_metrics h)
            \<lparr>average_latency := average_latency (current_metrics h) * 0.9
                                  + real (unat latency) / 1000 * 0.1\<rparr>;
          rc = (if is_read_operation request then read_count h + 1 else read_count h);
          wc = (if \<not> is_read_operation request \<and> is_write_operation request
                then write_count h + 1 else write_count h);
          m2 = (if wc > 0 then m1\<lparr>read_write_ratio := real (unat rc) / real (unat wc)\<rparr> else m1)
      in h\<lparr>current_metrics := m2, read_count := rc, write_count := wc\<rparr>)"

text \<open>
  \<open>process_read\<close> and \<open>process_write\<close> of the dispatcher. \<open>polls\<close> is handed to the
  quorum coordinator's polling loop. The speculative-execution hooks only log.
\<close>

definition Hybrid_process_read ::
  "HybridProtocol \<Rightarrow> Message \<Rightarrow> Message \<Rightarrow> u64 \<Rightarrow> u64 \<Rightarrow> concurrent_call list list
     \<Rightarrow> bool \<times> Message \<times> HybridProtocol" where
  "Hybrid_process_read h request response now latency polls =
     (case (if caching_enabled h then try_cache_read h (key request) now else (None, h)) of
        (Some cached_value, h1) \<Rightarrow>
          (True,
           response\<lparr>mtype := READ_RESPONSE, sender_id := node_id (node h1), timestamp := now,
                     key := key request, mvalue := cached_value, success := True\<rparr>,
           h1\<lparr>cache_hits := cache_hits h1 + 1\<rparr>)
      | (None, h1) \<Rightarrow>
          (let h2 = (if caching_enabled h1 then h1\<lparr>cache_misses := cache_misses h1 + 1\<rparr> else h1);
               mode = (if adaptive_switching_enabled h2 then decide_protocol_for_read h2
                       else read_preference h2)
           in
           case
             (if mode = CHAIN_ONLY \<or>
                 (mode = HYBRID_AUTO \<and> read_write_ratio (current_metrics h2) > 2) then
                (case Chain_process_read (node h2, chain_protocol h2) request response now of
                   (ok, r, n', c') \<Rightarrow>
                     (ok, r, h2\<lparr>node := n', chain_protocol := c',
                                 chain_operations := chain_operations h2 + 1\<rparr>))
              else if mode = QUORUM_ONLY \<or> mode = HYBRID_AUTO then
                (case Quorum_process_read (node h2, quorum_protocol h2) request response
                        now latency polls of
                   (ok, r, n', q') \<Rightarrow>
                     (ok, r, h2\<lparr>node := n', quorum_protocol := q',
                                 quorum_operations := quorum_operations h2 + 1\<rparr>))
              else (False, response, h2))
           of (ok, r, h3) \<Rightarrow>
             (let h4 = (if ok \<and> caching_enabled h3
                        then update_cache h3 (key request) (mvalue r) now else h3)
              in (ok, r, update_performance_metrics h4 request latency ok))))"

definition Hybrid_process_write ::
  "HybridProtocol \<Rightarrow> Message \<Rightarrow> Message \<Rightarrow> u64 \<Rightarrow> u64 \<Rightarrow> concurrent_call list list
     \<Rightarrow> bool \<times> Message \<times> HybridProtocol" where
  "Hybrid_process_write h request response now latency polls =
     (let h1 = (if caching_enabled h then h\<lparr>cache := AList.delete (key request) (cache h)\<rparr>
                else h);
          mode = (if adaptive_switching_enabled h1 then decide_protocol_for_write h1
                  else write_preference h1)
      in
      case
        (if mode = CHAIN_ONLY \<or>
            (mode = HYBRID_AUTO \<and> network_partition_probability (current_metrics h1) > 0.3) then
           (case Chain_process_write (node h1, chain_protocol h1) request response now of
              (ok, r, n', c') \<Rightarrow>
                (ok, r, h1\<lparr>node := n', chain_protocol := c',
                            chain_operations := chain_operations h1 + 1\<rparr>))
         else if mode = QUORUM_ONLY \<or> mode = HYBRID_AUTO then
           (case Quorum_process_write (node h1, quorum_protocol h1) request response
                   now latency polls of
              (ok, r, n', q') \<Rightarrow>
                (ok, r, h1\<lparr>node := n', quorum_protocol := q',
                            quorum_operations := quorum_operations h1 + 1\<rparr>))
         else (False, response, h1))
      of (ok, r, h2) \<Rightarrow> (ok, r, update_performance_metrics h2 request latency ok))"

subsection \<open>Predicate used to state the cache property\<close>

text \<open>
  The dispatcher in front of a single node: caching on, reads sent to the chain, the chain
  and the quorum made of the node itself, writes sent to the quorum coordinator.
\<close>

definition single_node_dispatcher :: "HybridProtocol \<Rightarrow> bool" where
  "single_node_dispatcher h =
     (caching_enabled h \<and> read_preference h = CHAIN_ONLY \<and>
      chain_order (chain_protocol h) = [node_id (node h)] \<and>
      my_position (chain_protocol h) = 0 \<and>
      length (quorum_nodes (quorum_protocol h)) = 1 \<and>
      write_preference h = QUORUM_ONLY \<and>
      pattern (current_metrics h) \<noteq> BURSTY)"

section \<open>Metrics pipeline (metrics.h, metrics.cpp)\<close>

text \<open>
  \<open>value_size\<close> of an operation's record is never assigned and is left out, as are the
  system resource figures and the alert thresholds of the monitor.
\<close>

record OperationMetrics =
  om_start_time :: u64
  om_end_time :: u64
  operation_type :: MessageType
  om_success :: bool
  om_key :: string
  hops :: "32 word"
  mode_used :: ReplicationMode

definition get_latency_ms :: "OperationMetrics \<Rightarrow> u64" where
  "get_latency_ms m = (om_end_time m - om_start_time m) div 1000"

record PerformanceMonitor =
  active_operations :: "u64 \<rightharpoonup> OperationMetrics"
  completed_operations :: "OperationMetrics list"
  total_operations :: u64
  successful_operations :: u64
  failed_operations :: u64
  cumulative_latency :: real
  pm_chain_operations :: u64
  pm_quorum_operations :: u64
  pm_hybrid_operations :: u64
  chain_latency :: real
  quorum_latency :: real
  hybrid_latency :: real
  monitor_start_time :: u64

definition PerformanceMonitor_init :: "u64 \<Rightarrow> PerformanceMonitor" where
  "PerformanceMonitor_init now =
     \<lparr> active_operations = Map.empty, completed_operations = [],
       total_operations = 0, successful_operations = 0, failed_operations = 0,
       cumulative_latency = 0, pm_chain_operations = 0, pm_quorum_operations = 0,
       pm_hybrid_operations = 0, chain_latency = 0, quorum_latency = 0, hybrid_latency = 0,
       monitor_start_time = now \<rparr>"

definition start_operation ::
  "PerformanceMonitor \<Rightarrow> u64 \<Rightarrow> MessageType \<Rightarrow> string \<Rightarrow> u64 \<Rightarrow> PerformanceMonitor" where
  "start_operation pm operation_id ty k now =
     pm\<lparr>active_operations := (active_operations pm)(operation_id \<mapsto>
            \<lparr> om_start_time = now, om_end_time = 0, operation_type = ty, om_success = False,
              om_key = k, hops = 0, mode_used = HYBRID_AUTO \<rparr>),
        total_operations := total_operations pm + 1\<rparr>"

definition end_operation ::
  "PerformanceMonitor \<Rightarrow> u64 \<Rightarrow> bool \<Rightarrow> ReplicationMode \<Rightarrow> 32 word \<Rightarrow> u64 \<Rightarrow> PerformanceMonitor" where
  "end_operation pm operation_id ok mode hop_count now =
     (case active_operations pm operation_id of
        None \<Rightarrow> pm
      | Some m0 \<Rightarrow>
          (let m = m0\<lparr>om_end_time := now, om_success := ok, mode_used := mode, hops := hop_count\<rparr>;
               pm1 = (if ok then pm\<lparr>successful_operations := successful_operations pm + 1\<rparr>
                      else pm\<lparr>failed_operations := failed_operations pm + 1\<rparr>);
               latency = real (unat (get_latency_ms m));
               pm2 = (case mode of
                        CHAIN_ONLY \<Rightarrow> pm1\<lparr>pm_chain_operations := pm_chain_operations pm1 + 1,
                                           chain_latency := chain_latency pm1 + latency\<rparr>
                      | QUORUM_ONLY \<Rightarrow> pm1\<lparr>pm_quorum_operations := pm_quorum_operations pm1 + 1,
                                            quorum_latency := quorum_latency pm1 + latency\<rparr>
                      | HYBRID_AUTO \<Rightarrow> pm1\<lparr>pm_hybrid_operations := pm_hybrid_operations pm1 + 1,
                                            hybrid_latency := hybrid_latency pm1 + latency\<rparr>);
               completed = completed_operations pm2 @ [m]
           in pm2\<lparr>cumulative_latency := cumulative_latency pm2 + latency,
                  completed_operations :=
                    (if length completed > 10000 then tl completed else completed),
                  active_operations := (active_operations pm2)(operation_id := None)\<rparr>))"

definition get_success_rate :: "PerformanceMonitor \<Rightarrow> real" where
  "get_success_rate pm =
     (if total_operations pm > 0
      then real (unat (successful_operations pm)) / real (unat (total_operations pm))
      else 0)"

text \<open>An interleaving of \<open>start_operation\<close> and \<open>end_operation\<close> calls, each with its clock reading.\<close>

datatype monitor_call =
    Start u64 MessageType string u64
  | End u64 bool ReplicationMode "32 word" u64

fun monitor_step :: "PerformanceMonitor \<Rightarrow> monitor_call \<Rightarrow> PerformanceMonitor" where
  "monitor_step pm (Start i ty k now) = start_operation pm i ty k now"
| "monitor_step pm (End i ok mode h now) = end_operation pm i ok mode h now"

definition monitor_run :: "PerformanceMonitor \<Rightarrow> monitor_call list \<Rightarrow> PerformanceMonitor" where
  "monitor_run pm calls = foldl monitor_step pm calls"

subsection \<open>Predicates used to state the metrics properties\<close>

fun is_start :: "monitor_call \<Rightarrow> bool" where
  "is_start (Start i ty k now) = True"
| "is_start (End i ok mode h now) = False"

text \<open>No \<open>start_operation\<close> of the sequence uses an id that is active when it is called.\<close>

fun ids_fresh :: "PerformanceMonitor \<Rightarrow> monitor_call list \<Rightarrow> bool" where
  "ids_fresh pm [] = True"
| "ids_fresh pm (Start i ty k now # cs) =
     (active_operations pm i = None \<and> ids_fresh (start_operation pm i ty k now) cs)"
| "ids_fresh pm (End i ok mode h now # cs) = ids_fresh (end_operation pm i ok mode h now) cs"

text \<open>
  The accounting of the counters: completed and pending operations against the started
  ones, as an inequality (always) and as an equation (while no id is started twice).
\<close>

definition monitor_inv :: "PerformanceMonitor \<Rightarrow> bool" where
  "monitor_inv pm =
     (finite (dom (active_operations pm)) \<and>
      unat (successful_operations pm) + unat (failed_operations pm)
        + card (dom (active_operations pm)) \<le> unat (total_operations pm))"

definition monitor_balanced :: "PerformanceMonitor \<Rightarrow> bool" where
  "monitor_balanced pm =
     (finite (dom (active_operations pm)) \<and>
      unat (successful_operations pm) + unat (failed_operations pm)
        + card (dom (active_operations pm)) = unat (total_operations pm))"

section \<open>Wire encoding of messages (Message::serialize, Message::deserialize)\<close>

subsection \<open>Printing numbers\<close>

text \<open>\<open>operator<<\<close> on an unsigned integer: its decimal digits, without leading zeros.\<close>

definition digit_char :: "nat \<Rightarrow> char" where
  "digit_char d = char_of (48 + d)"

fun dec_digits :: "nat \<Rightarrow> string" where
  "dec_digits n =
     (if n < 10 then [digit_char n] else dec_digits (n div 10) @ [digit_char (n mod 10)])"

declare dec_digits.simps [simp del]

definition show_int :: "int \<Rightarrow> string" where
  "show_int i = (if i < 0 then CHR ''-'' # dec_digits (nat (- i)) else dec_digits (nat i))"

text \<open>\<open>static_cast<int>(type)\<close>: the position of the enumerator in its declaration.\<close>

definition message_types :: "MessageType list" where
  "message_types =
     [READ_REQUEST, READ_RESPONSE, WRITE_REQUEST, WRITE_RESPONSE,
      HEARTBEAT, NODE_FAILURE, NODE_RECOVERY, CHAIN_UPDATE,
      QUORUM_PREPARE, QUORUM_PROMISE, QUORUM_ACCEPT, QUORUM_ACCEPTED,
      QUORUM_COMMIT, QUORUM_ABORT, MODE_SWITCH, CACHE_UPDATE,
      BATCH_REQUEST, BATCH_RESPONSE, CHAIN_FORWARD, CHAIN_ACK]"

fun MessageType_to_int :: "MessageType \<Rightarrow> int" where
  "MessageType_to_int READ_REQUEST = 0"
| "MessageType_to_int READ_RESPONSE = 1"
| "MessageType_to_int WRITE_REQUEST = 2"
| "MessageType_to_int WRITE_RESPONSE = 3"
| "MessageType_to_int HEARTBEAT = 4"
| "MessageType_to_int NODE_FAILURE = 5"
| "MessageType_to_int NODE_RECOVERY = 6"
| "MessageType_to_int CHAIN_UPDATE = 7"
| "MessageType_to_int QUORUM_PREPARE = 8"
| "MessageType_to_int QUORUM_PROMISE = 9"
| "MessageType_to_int QUORUM_ACCEPT = 10"
| "MessageType_to_int QUORUM_ACCEPTED = 11"
| "MessageType_to_int QUORUM_COMMIT = 12"
| "MessageType_to_int QUORUM_ABORT = 13"
| "MessageType_to_int MODE_SWITCH = 14"
| "MessageType_to_int CACHE_UPDATE = 15"
| "MessageType_to_int BATCH_REQUEST = 16"
| "MessageType_to_int BATCH_RESPONSE = 17"
| "MessageType_to_int CHAIN_FORWARD = 18"
| "MessageType_to_int CHAIN_ACK = 19"

text \<open>
  \<open>static_cast<MessageType>(i)\<close>. A number that no enumerator has gives a value of the
  enumeration type without a name, which the datatype does not have: \<open>None\<close>.
\<close>

definition MessageType_of_int :: "int \<Rightarrow> MessageType option" where
  "MessageType_of_int i =
     (if 0 \<le> i \<and> i < int (length message_types) then Some (message_types ! nat i) else None)"

subsection \<open>Serialize\<close>

text \<open>The loop over \<open>target_nodes\<close>: a comma before every element but the first.\<close>

fun targets_from :: "nat \<Rightarrow> node_id list \<Rightarrow> string" where
  "targets_from i [] = []"
| "targets_from i (t # ts) =
     (if i > 0 then '','' else []) @ dec_digits (unat t) @ targets_from (Suc i) ts"

definition serialize :: "Message \<Rightarrow> string" where
  "serialize m =
     show_int (MessageType_to_int (mtype m)) @ ''|'' @
     dec_digits (unat (sender_id m)) @ ''|'' @
     dec_digits (unat (receiver_id m)) @ ''|'' @
     key m @ ''|'' @
     mvalue m @ ''|'' @
     (if success m then ''1'' else ''0'') @ ''|'' @
     dec_digits (unat (timestamp m)) @ ''|'' @
     dec_digits (unat (sequence_number m)) @ ''|'' @
     correlation_id m @ ''|'' @
     targets_from 0 (target_nodes m) @ ''|'' @
     metadata m"

subsection \<open>Parsing numbers\<close>

text \<open>
  \<open>std::stoi\<close>, \<open>std::stoul\<close> and \<open>std::stoull\<close> skip leading white space, read an
  optional sign and the longest run of decimal digits, and ignore what follows. They throw
  \<open>invalid_argument\<close> when there is no digit and \<open>out_of_range\<close> when the number does
  not fit (\<open>unsigned long\<close> and \<open>unsigned long long\<close> have 64 bits, \<open>int\<close> 32). A minus
  sign negates an unsigned result modulo \<open>2^64\<close>.
\<close>

datatype parse_error = InvalidArgument | OutOfRange | UnnamedKind int

definition isspace :: "char \<Rightarrow> bool" where
  "isspace c = (of_char c = (32::nat) \<or> (9 \<le> (of_char c :: nat) \<and> (of_char c :: nat) \<le> 13))"

definition isdigit :: "char \<Rightarrow> bool" where
  "isdigit c = (48 \<le> (of_char c :: nat) \<and> (of_char c :: nat) \<le> 57)"

definition digits_value :: "string \<Rightarrow> nat" where
  "digits_value ds = foldl (\<lambda>a c. 10 * a + (of_char c - 48)) 0 ds"

text \<open>The sign and the digits of the number at the start of a string.\<close>

definition scan_number :: "string \<Rightarrow> bool \<times> string" where
  "scan_number s =
     (case dropWhile isspace s of
        [] \<Rightarrow> (False, [])
      | c # r \<Rightarrow>
          if c = CHR ''-'' then (True, takeWhile isdigit r)
          else if c = CHR ''+'' then (False, takeWhile isdigit r)
          else (False, takeWhile isdigit (c # r)))"

definition stoul :: "string \<Rightarrow> parse_error + u64" where
  "stoul s =
     (case scan_number s of (neg, ds) \<Rightarrow>
        if ds = [] then Inl InvalidArgument
        else if digits_value ds \<ge> 2 ^ 64 then Inl OutOfRange
        else Inr (if neg then - word_of_nat (digits_value ds) else word_of_nat (digits_value ds)))"

definition stoull :: "string \<Rightarrow> parse_error + u64" where
  "stoull s = stoul s"

definition stoi :: "string \<Rightarrow> parse_error + int" where
  "stoi s =
     (case scan_number s of (neg, ds) \<Rightarrow>
        if ds = [] then Inl InvalidArgument
        else (let v = (if neg then - int (digits_value ds) else int (digits_value ds)) in
              if v < - (2 ^ 31) \<or> v > 2 ^ 31 - 1 then Inl OutOfRange else Inr v))"

subsection \<open>Deserialize\<close>

text \<open>
  \<open>std::getline(stream, token, delim)\<close> on the rest of a stream: it fails when nothing
  is left; otherwise the token is what stands before the first delimiter (or the whole
  rest), and the delimiter is consumed.
\<close>

definition getline :: "string \<Rightarrow> char \<Rightarrow> (string \<times> string) option" where
  "getline s d =
     (if s = [] then None
      else Some (takeWhile (\<lambda>c. c \<noteq> d) s, drop 1 (dropWhile (\<lambda>c. c \<noteq> d) s)))"

lemma getline_shorter: "getline s d = Some (tok, rest) \<Longrightarrow> length rest < length s"
proof -
  assume a: "getline s d = Some (tok, rest)"
  then have ne: "s \<noteq> []" and r: "rest = drop 1 (dropWhile (\<lambda>c. c \<noteq> d) s)"
    by (auto simp: getline_def split: if_splits)
  have le: "length (dropWhile (\<lambda>c. c \<noteq> d) s) \<le> length s"
    by (rule length_dropWhile_le)
  show ?thesis
  proof (cases "dropWhile (\<lambda>c. c \<noteq> d) s")
    case Nil
    with r ne show ?thesis by simp
  next
    case (Cons x xs)
    with r le show ?thesis by simp
  qed
qed

text \<open>The inner loop over the comma-separated targets: \<open>push_back(std::stoul(node_token))\<close>.\<close>

function parse_targets :: "string \<Rightarrow> parse_error + node_id list" where
  "parse_targets s =
     (case getline s CHR '','' of
        None \<Rightarrow> Inr []
      | Some (node_token, rest) \<Rightarrow>
          (case stoul node_token of
             Inl e \<Rightarrow> Inl e
           | Inr v \<Rightarrow>
               (case parse_targets rest of
                  Inl e \<Rightarrow> Inl e
                | Inr vs \<Rightarrow> Inr (ucast v # vs))))"
  by pat_completeness auto
termination
  by (relation "measure length") (auto dest: getline_shorter)

declare parse_targets.simps [simp del]

text \<open>
  One \<open>if (std::getline(iss, token, '|')) { ... }\<close> of \<open>deserialize\<close>: when the stream
  gives a token the field is assigned, otherwise the message keeps what it has. An
  exception of the conversion ends the call.
\<close>

definition parse_field ::
  "(string \<Rightarrow> Message \<Rightarrow> parse_error + Message) \<Rightarrow> parse_error + Message \<times> string
     \<Rightarrow> parse_error + Message \<times> string" where
  "parse_field assign st =
     (case st of
        Inl e \<Rightarrow> Inl e
      | Inr (msg, s) \<Rightarrow>
          (case getline s CHR ''|'' of
             None \<Rightarrow> Inr (msg, s)
           | Some (token, rest) \<Rightarrow>
               (case assign token msg of
                  Inl e \<Rightarrow> Inl e
                | Inr msg' \<Rightarrow> Inr (msg', rest))))"

definition assign_type :: "string \<Rightarrow> Message \<Rightarrow> parse_error + Message" where
  "assign_type token msg =
     (case stoi token of
        Inl e \<Rightarrow> Inl e
      | Inr i \<Rightarrow>
          (case MessageType_of_int i of
             None \<Rightarrow> Inl (UnnamedKind i)
           | Some t \<Rightarrow> Inr (msg\<lparr>mtype := t\<rparr>)))"

definition assign_sender_id :: "string \<Rightarrow> Message \<Rightarrow> parse_error + Message" where
  "assign_sender_id token msg =
     (case stoul token of Inl e \<Rightarrow> Inl e | Inr v \<Rightarrow> Inr (msg\<lparr>sender_id := ucast v\<rparr>))"

definition assign_receiver_id :: "string \<Rightarrow> Message \<Rightarrow> parse_error + Message" where
  "assign_receiver_id token msg =
     (case stoul token of Inl e \<Rightarrow> Inl e | Inr v \<Rightarrow> Inr (msg\<lparr>receiver_id := ucast v\<rparr>))"

definition assign_key :: "string \<Rightarrow> Message \<Rightarrow> parse_error + Message" where
  "assign_key token msg = Inr (msg\<lparr>key := token\<rparr>)"

definition assign_value :: "string \<Rightarrow> Message \<Rightarrow> parse_error + Message" where
  "assign_value token msg = Inr (msg\<lparr>mvalue := token\<rparr>)"

definition assign_success :: "string \<Rightarrow> Message \<Rightarrow> parse_error + Message" where
  "assign_success token msg = Inr (msg\<lparr>success := (token = ''1'')\<rparr>)"

definition assign_timestamp :: "string \<Rightarrow> Message \<Rightarrow> parse_error + Message" where
  "assign_timestamp token msg =
     (case stoull token of Inl e \<Rightarrow> Inl e | Inr v \<Rightarrow> Inr (msg\<lparr>timestamp := v\<rparr>))"

definition assign_sequence_number :: "string \<Rightarrow> Message \<Rightarrow> parse_error + Message" where
  "assign_sequence_number token msg =
     (case stoul token of Inl e \<Rightarrow> Inl e | Inr v \<Rightarrow> Inr (msg\<lparr>sequence_number := ucast v\<rparr>))"

definition assign_correlation_id :: "string \<Rightarrow> Message \<Rightarrow> parse_error + Message" where
  "assign_correlation_id token msg = Inr (msg\<lparr>correlation_id := token\<rparr>)"

definition assign_target_nodes :: "string \<Rightarrow> Message \<Rightarrow> parse_error + Message" where
  "assign_target_nodes token msg =
     (if token \<noteq> [] then
        (case parse_targets token of
           Inl e \<Rightarrow> Inl e
         | Inr vs \<Rightarrow> Inr (msg\<lparr>target_nodes := target_nodes msg @ vs\<rparr>))
      else Inr msg)"

definition assign_metadata :: "string \<Rightarrow> Message \<Rightarrow> parse_error + Message" where
  "assign_metadata token msg = Inr (msg\<lparr>metadata := token\<rparr>)"

definition deserialize :: "string \<Rightarrow> parse_error + Message" where
  "deserialize data =
     (case
        parse_field assign_metadata
       (parse_field assign_target_nodes
       (parse_field assign_correlation_id
       (parse_field assign_sequence_number
       (parse_field assign_timestamp
       (parse_field assign_success
       (parse_field assign_value
       (parse_field assign_key
       (parse_field assign_receiver_id
       (parse_field assign_sender_id
       (parse_field assign_type (Inr (Message_init, data))))))))))))
      of Inl e \<Rightarrow> Inl e | Inr (msg, rest) \<Rightarrow> Inr msg)"

section \<open>Concrete states used in examples\<close>

text \<open>Node 1 with an empty store, and holding \<open>k \<mapsto> v\<close>; a write and a read request of a client.\<close>

definition node_one :: Node where
  "node_one = \<lparr> node_id = 1, data_store = Map.empty, operation_count = 0,
                 success_count = 0, sent = [] \<rparr>"

definition node_one_with :: "string \<Rightarrow> string \<Rightarrow> Node" where
  "node_one_with k v = node_one\<lparr>data_store := [k \<mapsto> v]\<rparr>"

definition write_request :: "string \<Rightarrow> string \<Rightarrow> Message" where
  "write_request k v = Message_init\<lparr>mtype := WRITE_REQUEST, key := k, mvalue := v, sender_id := 100\<rparr>"

definition read_request :: "string \<Rightarrow> Message" where
  "read_request k = Message_init\<lparr>mtype := READ_REQUEST, key := k, sender_id := 100\<rparr>"

text \<open>
  A coordinator over the single member 1 after one write (served by the single-node
  path, so one successful consensus is counted), and the same coordinator after node 2
  has joined by \<open>handle_node_recovery\<close>.
\<close>

definition quorum_after_one_write :: QuorumReplication where
  "quorum_after_one_write =
     snd (snd (snd (Quorum_process_write (node_one, QuorumReplication_init [1])
                      (write_request ''k'' ''v'') Message_init 0 0 [])))"

definition quorum_of_two :: QuorumReplication where
  "quorum_of_two = Quorum_handle_node_recovery quorum_after_one_write 2"

text \<open>
  Seven members without consensus history, after \<open>adjust_quorum_size_based_on_load\<close>;
  and a proposal that four of them have promised.
\<close>

definition quorum_of_seven_adjusted :: QuorumReplication where
  "quorum_of_seven_adjusted =
     adjust_quorum_size_based_on_load (QuorumReplication_init [1, 2, 3, 4, 5, 6, 7])"

definition proposal_with_four :: QuorumState where
  "proposal_with_four =
     \<lparr> proposal_number = 1, phase = PREPARE, qs_key = ''k'', qs_value = ''v'',
       promised_nodes = {2, 3, 4, 5}, accepted_nodes = {2, 3, 4, 5}, start_time = 0 \<rparr>"

text \<open>The chain of node 1 alone, after node 1 has been reported failed: the empty chain.\<close>

definition emptied_chain :: ChainReplication where
  "emptied_chain = Chain_handle_node_failure node_one (ChainReplication_init node_one [1]) 1"

text \<open>
  Five members; a proposal that nodes 2 and 3 have promised and accepted, registered as
  active under number 1; and the promise of node 4 for it.
\<close>

definition proposal_with_two :: QuorumState where
  "proposal_with_two =
     \<lparr> proposal_number = 1, phase = PREPARE, qs_key = ''k'', qs_value = ''v'',
       promised_nodes = {2, 3}, accepted_nodes = {2, 3}, start_time = 0 \<rparr>"

definition quorum_of_five :: QuorumReplication where
  "quorum_of_five = (QuorumReplication_init [1, 2, 3, 4, 5])
     \<lparr>active_proposals := [1 \<mapsto> proposal_with_two]\<rparr>"

definition reply_from_four :: Message where
  "reply_from_four = Message_init\<lparr>mtype := QUORUM_PROMISE, sender_id := 4, sequence_number := 1\<rparr>"

text \<open>
  The coordinator of the timeout scenario (members 1, 2, 3, adaptive quorum off, timeout
  100 ms); a coordinator over the same members with the read optimisation switched off;
  and the promise of a node for proposal 1.
\<close>

definition quorum_of_three_plain :: QuorumReplication where
  "quorum_of_three_plain =
     (QuorumReplication_init [1, 2, 3])\<lparr>adaptive_quorum_enabled := False, operation_timeout := 100\<rparr>"

definition quorum_of_three_strict_reads :: QuorumReplication where
  "quorum_of_three_strict_reads =
     (QuorumReplication_init [1, 2, 3])\<lparr>read_optimization_enabled := False\<rparr>"

definition promise_from :: "node_id \<Rightarrow> Message" where
  "promise_from i = Message_init\<lparr>mtype := QUORUM_PROMISE, sender_id := i, sequence_number := 1,
                                  success := True\<rparr>"

text \<open>The acceptance of a node for proposal 1.\<close>

definition accepted_from :: "node_id \<Rightarrow> Message" where
  "accepted_from i = Message_init\<lparr>mtype := QUORUM_ACCEPTED, sender_id := i, sequence_number := 1,
                                   success := True\<rparr>"

text \<open>A message with every field set.\<close>

definition sample_message :: Message where
  "sample_message =
     \<lparr> mtype = WRITE_REQUEST, sender_id = 1, receiver_id = 3, key = ''k'', mvalue = ''v'',
       success = True, timestamp = 98765, sequence_number = 42,
       correlation_id = ''c-7'', target_nodes = [2, 30], metadata = ''m'' \<rparr>"

text \<open>
  The dispatcher of the caching test: node 1 alone, holding \<open>k \<mapsto> v\<close>, adaptive
  switching off, reads and writes both sent to the chain; and its state after two reads of
  \<open>k\<close> and a write of \<open>w\<close> under \<open>k\<close>.
\<close>

definition dispatcher_chain_writes :: HybridProtocol where
  "dispatcher_chain_writes =
     (HybridProtocol_init (node_one_with ''k'' ''v'') [1] [1])
       \<lparr>caching_enabled := True, adaptive_switching_enabled := False,
        write_preference := CHAIN_ONLY, read_preference := CHAIN_ONLY\<rparr>"

definition after_first_read :: HybridProtocol where
  "after_first_read =
     snd (snd (Hybrid_process_read dispatcher_chain_writes (read_request ''k'') Message_init 10 1 []))"

definition after_second_read :: HybridProtocol where
  "after_second_read =
     snd (snd (Hybrid_process_read after_first_read (read_request ''k'') Message_init 20 1 []))"

definition after_chain_write :: HybridProtocol where
  "after_chain_write =
     snd (snd (Hybrid_process_write after_second_read (write_request ''k'' ''w'') Message_init 30 1 []))"

section \<open>Properties of the quorum coordinator's membership\<close>

lemma quorum_nodes_adjust [simp]:
  "quorum_nodes (adjust_quorum_size_based_on_load q) = quorum_nodes q"
  by (simp add: adjust_quorum_size_based_on_load_def Let_def)

lemma distinct_handle_node_failure:
  "distinct (quorum_nodes q) \<Longrightarrow> distinct (quorum_nodes (Quorum_handle_node_failure q n))"
  by (simp add: Quorum_handle_node_failure_def Let_def)

lemma distinct_handle_node_recovery:
  "distinct (quorum_nodes q) \<Longrightarrow> distinct (quorum_nodes (Quorum_handle_node_recovery q n))"
  by (simp add: Quorum_handle_node_recovery_def is_in_quorum_def Let_def)

lemma distinct_membership_run:
  "distinct (quorum_nodes q) \<Longrightarrow> \<forall>c \<in> set calls. is_failure_or_recovery c
     \<Longrightarrow> distinct (quorum_nodes (membership_run q calls))"
  unfolding membership_run_def
proof (induction calls arbitrary: q)
  case Nil
  then show ?case by simp
next
  case (Cons c calls)
  have "distinct (quorum_nodes (membership_step q c))"
    using Cons.prems
    by (cases c) (simp_all add: distinct_handle_node_failure distinct_handle_node_recovery)
  with Cons show ?case by simp
qed

lemma natural_majority_step:
  "\<not> adaptive_quorum_enabled q \<Longrightarrow> natural_majority q \<Longrightarrow>
    natural_majority (membership_step q c) \<and> \<not> adaptive_quorum_enabled (membership_step q c)"
  by (cases c) (simp_all add: natural_majority_def Quorum_handle_node_failure_def
      Quorum_handle_node_recovery_def update_quorum_nodes_def Let_def)

lemma natural_majority_run:
  "\<not> adaptive_quorum_enabled q \<Longrightarrow> natural_majority q \<Longrightarrow>
    natural_majority (membership_run q calls) \<and> \<not> adaptive_quorum_enabled (membership_run q calls)"
  unfolding membership_run_def
proof (induction calls arbitrary: q)
  case Nil
  then show ?case by simp
next
  case (Cons c calls)
  from natural_majority_step [OF Cons.prems] Cons.IH show ?case by simp
qed

text \<open>
  Claim C10. \<open>QuorumReplication::handle_node_recovery\<close> leaves the coordinator as it
  is when the id is already a member, so a member list without duplicates keeps that
  property under every sequence of failure and recovery calls. The chain coordinator's
  recovery appends the id whether or not it is present.
\<close>

theorem quorum_recovery_idempotent:
  "(is_in_quorum q n \<longrightarrow> Quorum_handle_node_recovery q n = q) \<and>
   (distinct (quorum_nodes q) \<and> (\<forall>c \<in> set calls. is_failure_or_recovery c)
      \<longrightarrow> distinct (quorum_nodes (membership_run q calls))) \<and>
   chain_order (Chain_handle_node_recovery nd c n) = chain_order c @ [n]"
proof (intro conjI impI)
  assume "is_in_quorum q n"
  then show "Quorum_handle_node_recovery q n = q"
    by (simp add: Quorum_handle_node_recovery_def)
next
  assume "distinct (quorum_nodes q) \<and> (\<forall>c \<in> set calls. is_failure_or_recovery c)"
  then show "distinct (quorum_nodes (membership_run q calls))"
    by (simp add: distinct_membership_run)
next
  show "chain_order (Chain_handle_node_recovery nd c n) = chain_order c @ [n]"
    by (simp add: Chain_handle_node_recovery_def find_my_position_def)
qed

theorem quorum_recovery_idempotent_witness:
  "is_in_quorum (QuorumReplication_init [1, 2, 3]) 2 \<and>
   Quorum_handle_node_recovery (QuorumReplication_init [1, 2, 3]) 2 = QuorumReplication_init [1, 2, 3] \<and>
   distinct (quorum_nodes (QuorumReplication_init [1, 2, 3])) \<and>
   distinct (quorum_nodes (membership_run (QuorumReplication_init [1, 2, 3])
      [Failure 2, Recovery 2, Recovery 2, Recovery 3])) \<and>
   chain_order (Chain_handle_node_recovery
      \<lparr>node_id = 1, data_store = Map.empty, operation_count = 0, success_count = 0, sent = []\<rparr>
      (ChainReplication_init
         \<lparr>node_id = 1, data_store = Map.empty, operation_count = 0, success_count = 0, sent = []\<rparr>
         [1, 2]) 2) = [1, 2, 2]"
  using quorum_recovery_idempotent [of "QuorumReplication_init [1, 2, 3]" 2
      "[Failure 2, Recovery 2, Recovery 2, Recovery 3]"
      "\<lparr>node_id = 1, data_store = Map.empty, operation_count = 0, success_count = 0, sent = []\<rparr>"
      "ChainReplication_init
         \<lparr>node_id = 1, data_store = Map.empty, operation_count = 0, success_count = 0, sent = []\<rparr>
         [1, 2]"]
  by (simp add: QuorumReplication_init_def is_in_quorum_def ChainReplication_init_def
      find_my_position_def)

text \<open>
  Claim C2, as stated, fails with adaptive quorum enabled: on eight members without any
  consensus history, the failure of a member leaves seven members and the load-based
  adjustment raises the quorum size from 4 to 5.
\<close>

theorem adaptive_failure_counterexample:
  "adaptive_quorum_enabled (QuorumReplication_init [1, 2, 3, 4, 5, 6, 7, 8]) \<and>
   length (quorum_nodes (membership_run (QuorumReplication_init [1, 2, 3, 4, 5, 6, 7, 8]) [Failure 8])) = 7 \<and>
   quorum_size (membership_run (QuorumReplication_init [1, 2, 3, 4, 5, 6, 7, 8]) [Failure 8]) = 5 \<and>
   \<not> natural_majority (membership_run (QuorumReplication_init [1, 2, 3, 4, 5, 6, 7, 8]) [Failure 8])"
  by (simp add: membership_run_def natural_majority_def Quorum_handle_node_failure_def QuorumReplication_init_def Let_def
     adjust_quorum_size_based_on_load_def calculate_optimal_quorum_size_def get_consensus_success_rate_def)

text \<open>
  Claim C2, amended. With adaptive quorum disabled, every sequence of
  \<open>handle_node_failure\<close>, \<open>handle_node_recovery\<close> and \<open>update_quorum_nodes\<close> calls keeps
  \<open>quorum_size\<close> equal to half the member count, rounded down, plus one. Whatever the
  setting, \<open>update_quorum_nodes\<close> and a recovery that adds a member establish it.
\<close>

theorem quorum_size_after_membership_change:
  "(\<not> adaptive_quorum_enabled q \<and> natural_majority q \<longrightarrow> natural_majority (membership_run q calls)) \<and>
   natural_majority (update_quorum_nodes q ns) \<and>
   (\<not> is_in_quorum q n \<longrightarrow> natural_majority (Quorum_handle_node_recovery q n))"
proof (intro conjI impI)
  assume "\<not> adaptive_quorum_enabled q \<and> natural_majority q"
  then show "natural_majority (membership_run q calls)"
    using natural_majority_run [of q calls] by simp
next
  show "natural_majority (update_quorum_nodes q ns)"
    by (simp add: natural_majority_def update_quorum_nodes_def)
next
  assume "\<not> is_in_quorum q n"
  then show "natural_majority (Quorum_handle_node_recovery q n)"
    by (simp add: natural_majority_def Quorum_handle_node_recovery_def Let_def)
qed

theorem quorum_size_after_membership_change_witness:
  "\<not> adaptive_quorum_enabled ((QuorumReplication_init [1, 2, 3, 4, 5])\<lparr>adaptive_quorum_enabled := False\<rparr>) \<and>
   natural_majority ((QuorumReplication_init [1, 2, 3, 4, 5])\<lparr>adaptive_quorum_enabled := False\<rparr>) \<and>
   natural_majority (membership_run ((QuorumReplication_init [1, 2, 3, 4, 5])\<lparr>adaptive_quorum_enabled := False\<rparr>)
      [Failure 2, Failure 4, Recovery 2]) \<and>
   quorum_size (membership_run ((QuorumReplication_init [1, 2, 3, 4, 5])\<lparr>adaptive_quorum_enabled := False\<rparr>)
      [Failure 2, Failure 4, Recovery 2]) = 3 \<and>
   \<not> is_in_quorum ((QuorumReplication_init [1, 2, 3, 4, 5])\<lparr>adaptive_quorum_enabled := False\<rparr>) 9 \<and>
   natural_majority (Quorum_handle_node_recovery
      ((QuorumReplication_init [1, 2, 3, 4, 5])\<lparr>adaptive_quorum_enabled := False\<rparr>) 9)"
  using quorum_size_after_membership_change
    [of "(QuorumReplication_init [1, 2, 3, 4, 5])\<lparr>adaptive_quorum_enabled := False\<rparr>"
        "[Failure 2, Failure 4, Recovery 2]" "[]" 9]
  by (simp add: QuorumReplication_init_def natural_majority_def is_in_quorum_def membership_run_def
      Quorum_handle_node_failure_def Quorum_handle_node_recovery_def Let_def)

section \<open>Adaptive quorum sizing\<close>

text \<open>
  Claim C3 on clusters of one and two members. After one successful consensus the
  success rate is 1, and \<open>adjust_quorum_size_based_on_load\<close> sets the quorum size to 3:
  more than the members there are, where the claim keeps the natural majority
  (1 and 2).
\<close>

theorem adjust_small_cluster_sets_three:
  "length (quorum_nodes quorum_after_one_write) = 1 \<and>
   quorum_size quorum_after_one_write = 1 \<and>
   get_consensus_success_rate quorum_after_one_write = 1 \<and>
   quorum_size (adjust_quorum_size_based_on_load quorum_after_one_write) = 3 \<and>
   length (quorum_nodes quorum_of_two) = 2 \<and>
   quorum_size quorum_of_two = 2 \<and>
   get_consensus_success_rate quorum_of_two = 1 \<and>
   quorum_size (adjust_quorum_size_based_on_load quorum_of_two) = 3"
  by (simp add: quorum_of_two_def quorum_after_one_write_def Quorum_process_write_def
      Quorum_handle_node_recovery_def is_in_quorum_def Node_write_def
      QuorumReplication_init_def adjust_quorum_size_based_on_load_def
      calculate_optimal_quorum_size_def get_consensus_success_rate_def Let_def)

text \<open>
  What the adjustment computes otherwise: a low rate gives the natural majority plus one,
  capped at the member count (from three members on); a high rate gives the natural
  majority minus one, but at least 3; a rate in between leaves the natural majority. On
  seven members with seven successes and three failures (rate 0.7) the size goes from 4
  to 5.
\<close>

lemma adjust_low_rate:
  assumes "get_consensus_success_rate q < 0.8" and "3 \<le> length (quorum_nodes q)"
  shows "quorum_size (adjust_quorum_size_based_on_load q)
           = min (length (quorum_nodes q) div 2 + 2) (length (quorum_nodes q))"
  using assms
  by (auto simp add: adjust_quorum_size_based_on_load_def calculate_optimal_quorum_size_def Let_def)

lemma adjust_high_rate:
  assumes "get_consensus_success_rate q > 0.95"
  shows "quorum_size (adjust_quorum_size_based_on_load q) = max (length (quorum_nodes q) div 2) 3"
  using assms
  by (auto simp add: adjust_quorum_size_based_on_load_def calculate_optimal_quorum_size_def Let_def)

lemma adjust_mid_rate:
  assumes "0.8 \<le> get_consensus_success_rate q" and "get_consensus_success_rate q \<le> 0.95"
    and "natural_majority q"
  shows "quorum_size (adjust_quorum_size_based_on_load q) = length (quorum_nodes q) div 2 + 1"
  using assms
  by (auto simp add: adjust_quorum_size_based_on_load_def calculate_optimal_quorum_size_def Let_def
     natural_majority_def)

lemma adjust_seven_members_rate_70:
  "quorum_size ((QuorumReplication_init [1, 2, 3, 4, 5, 6, 7])
      \<lparr>successful_consensus := 7, failed_consensus := 3\<rparr>) = 4 \<and>
   get_consensus_success_rate ((QuorumReplication_init [1, 2, 3, 4, 5, 6, 7])
      \<lparr>successful_consensus := 7, failed_consensus := 3\<rparr>) = 0.7 \<and>
   quorum_size (adjust_quorum_size_based_on_load ((QuorumReplication_init [1, 2, 3, 4, 5, 6, 7])
      \<lparr>successful_consensus := 7, failed_consensus := 3\<rparr>)) = 5"
  by (simp add: QuorumReplication_init_def adjust_quorum_size_based_on_load_def
      calculate_optimal_quorum_size_def get_consensus_success_rate_def Let_def)

section \<open>The empty chain\<close>

text \<open>
  Claim C6. On an empty chain \<open>ChainReplication::process_read\<close> returns false and
  \<open>process_write\<close> sends nothing, as claimed; but \<open>process_write\<close> returns true with
  \<open>success = true\<close> in the response, where the claim has \<open>success = false\<close>. The
  write is neither stored nor forwarded.
\<close>

theorem empty_chain_write_reports_success:
  assumes "chain_order c = []"
  shows "Chain_process_write (n, c) request response now =
           (True, response\<lparr>mtype := WRITE_RESPONSE, sender_id := node_id n, timestamp := now,
                            key := key request, sequence_number := sequence_number request,
                            success := True\<rparr>, n, c)
         \<and> Chain_process_read (n, c) request response now = (False, response, n, c)"
  using assms by (simp add: Chain_process_write_def Chain_process_read_def is_head_def is_tail_def)

theorem empty_chain_write_reports_success_witness:
  "chain_order emptied_chain = [] \<and>
   fst (Chain_process_write (node_one, emptied_chain) (write_request ''k'' ''v'') Message_init 0) \<and>
   success (fst (snd (Chain_process_write (node_one, emptied_chain) (write_request ''k'' ''v'') Message_init 0))) \<and>
   sent (fst (snd (snd (Chain_process_write (node_one, emptied_chain) (write_request ''k'' ''v'') Message_init 0)))) = [] \<and>
   data_store (fst (snd (snd (Chain_process_write (node_one, emptied_chain) (write_request ''k'' ''v'') Message_init 0)))) ''k'' = None \<and>
   \<not> fst (Chain_process_read (node_one, emptied_chain) (read_request ''k'') Message_init 0)"
proof -
  have e: "chain_order emptied_chain = []"
    by (simp add: emptied_chain_def Chain_handle_node_failure_def ChainReplication_init_def
        find_my_position_def node_one_def)
  show ?thesis
    using e empty_chain_write_reports_success [OF e, of node_one "write_request ''k'' ''v''" Message_init 0]
      empty_chain_write_reports_success [OF e, of node_one "read_request ''k''" Message_init 0]
    by (simp add: node_one_def)
qed

section \<open>Consistency of the metrics counters\<close>

lemma unat_plus_one:
  fixes w :: u64
  assumes "unat w + 1 < 2 ^ 64"
  shows "unat (w + 1) = unat w + 1"
proof -
  have "unat w + unat (1 :: u64) < 2 ^ LENGTH(64)"
    using assms by simp
  then have "unat (w + 1) = unat w + unat (1 :: u64)"
    by (simp only: unat_add_lem)
  then show ?thesis by simp
qed

lemma card_dom_upd_le:
  assumes "finite (dom m)"
  shows "card (dom (m(k \<mapsto> v))) \<le> card (dom m) + 1"
  using assms by (simp add: card_insert_if)

lemma start_total:
  assumes "unat (total_operations pm) + 1 < 2 ^ 64"
  shows "unat (total_operations (start_operation pm i ty k now)) = unat (total_operations pm) + 1"
  using assms by (simp add: start_operation_def unat_plus_one)

lemma start_inv:
  assumes "monitor_inv pm" and "unat (total_operations pm) + 1 < 2 ^ 64"
  shows "monitor_inv (start_operation pm i ty k now)"
proof -
  have t: "unat (total_operations pm + 1) = unat (total_operations pm) + 1"
    using assms(2) by (rule unat_plus_one)
  have f: "finite (dom (active_operations pm))"
    using assms(1) by (simp add: monitor_inv_def)
  have c: "card (insert i (dom (active_operations pm))) \<le> card (dom (active_operations pm)) + 1"
    using f by (simp add: card_insert_if)
  show ?thesis
    using assms(1) t c f by (simp add: monitor_inv_def start_operation_def)
qed

lemma start_balanced:
  assumes "monitor_balanced pm" and "unat (total_operations pm) + 1 < 2 ^ 64"
    and "active_operations pm i = None"
  shows "monitor_balanced (start_operation pm i ty k now)"
proof -
  have t: "unat (total_operations pm + 1) = unat (total_operations pm) + 1"
    using assms(2) by (rule unat_plus_one)
  have f: "finite (dom (active_operations pm))"
    using assms(1) by (simp add: monitor_balanced_def)
  have "i \<notin> dom (active_operations pm)"
    using assms(3) by (simp add: domIff)
  then have c: "card (insert i (dom (active_operations pm))) = card (dom (active_operations pm)) + 1"
    using f by simp
  show ?thesis
    using assms(1) t c f by (simp add: monitor_balanced_def start_operation_def)
qed

lemma end_counters:
  assumes "active_operations pm i = Some m0"
  shows "successful_operations (end_operation pm i ok mode h now)
           = (if ok then successful_operations pm + 1 else successful_operations pm)"
    and "failed_operations (end_operation pm i ok mode h now)
           = (if ok then failed_operations pm else failed_operations pm + 1)"
    and "total_operations (end_operation pm i ok mode h now) = total_operations pm"
    and "active_operations (end_operation pm i ok mode h now) = (active_operations pm)(i := None)"
  using assms by (auto simp add: end_operation_def Let_def split: ReplicationMode.splits)

lemma end_total: "total_operations (end_operation pm i ok mode h now) = total_operations pm"
proof (cases "active_operations pm i")
  case None
  then show ?thesis by (simp add: end_operation_def)
next
  case (Some m0)
  then show ?thesis by (rule end_counters(3))
qed

lemma end_sum:
  assumes a: "active_operations pm i = Some m0"
    and f: "finite (dom (active_operations pm))"
    and b: "unat (successful_operations pm) + unat (failed_operations pm)
              + card (dom (active_operations pm)) \<le> unat (total_operations pm)"
  shows "finite (dom (active_operations (end_operation pm i ok mode h now))) \<and>
         unat (successful_operations (end_operation pm i ok mode h now))
           + unat (failed_operations (end_operation pm i ok mode h now))
           + card (dom (active_operations (end_operation pm i ok mode h now)))
         = unat (successful_operations pm) + unat (failed_operations pm)
           + card (dom (active_operations pm))"
proof -
  have mem: "i \<in> dom (active_operations pm)" using a by (simp add: domIff)
  then have pos: "card (dom (active_operations pm)) \<ge> 1"
    using f by (metis One_nat_def Suc_leI card_gt_0_iff empty_iff)
  have cd: "card (dom (active_operations pm) - {i}) = card (dom (active_operations pm)) - 1"
    using mem f by simp
  have lt: "unat (total_operations pm) < 2 ^ 64"
    using unsigned_less [of "total_operations pm", where 'a = nat] by simp
  have s1: "unat (successful_operations pm) + 1 < 2 ^ 64" using b pos lt by linarith
  have f1: "unat (failed_operations pm) + 1 < 2 ^ 64" using b pos lt by linarith
  show ?thesis
  proof (cases ok)
    case True
    then show ?thesis
      using end_counters [OF a, of ok mode h now] unat_plus_one [OF s1] cd pos f by simp
  next
    case False
    then show ?thesis
      using end_counters [OF a, of ok mode h now] unat_plus_one [OF f1] cd pos f by simp
  qed
qed

lemma end_inv:
  assumes "monitor_inv pm"
  shows "monitor_inv (end_operation pm i ok mode h now)"
proof (cases "active_operations pm i")
  case None
  then show ?thesis using assms by (simp add: end_operation_def)
next
  case (Some m0)
  from end_sum [OF Some, of ok mode h now] assms end_counters(3) [OF Some, of ok mode h now]
  show ?thesis by (simp add: monitor_inv_def)
qed

lemma end_balanced:
  assumes "monitor_balanced pm"
  shows "monitor_balanced (end_operation pm i ok mode h now)"
proof (cases "active_operations pm i")
  case None
  then show ?thesis using assms by (simp add: end_operation_def)
next
  case (Some m0)
  from end_sum [OF Some, of ok mode h now] assms end_counters(3) [OF Some, of ok mode h now]
  show ?thesis by (simp add: monitor_balanced_def)
qed

lemma monitor_run_inv:
  assumes "monitor_inv pm"
    and "unat (total_operations pm) + length (filter is_start calls) < 2 ^ 64"
  shows "monitor_inv (monitor_run pm calls)"
  using assms unfolding monitor_run_def
proof (induction calls arbitrary: pm)
  case Nil
  then show ?case by simp
next
  case (Cons c calls)
  show ?case
  proof (cases c)
    case (Start i ty k now)
    have lt: "unat (total_operations pm) + 1 < 2 ^ 64"
      using Cons.prems(2) Start by simp
    have "monitor_inv (start_operation pm i ty k now)"
      using Cons.prems(1) lt by (rule start_inv)
    moreover have "unat (total_operations (start_operation pm i ty k now))
        + length (filter is_start calls) < 2 ^ 64"
      using Cons.prems(2) Start start_total [OF lt, of i ty k now] by simp
    ultimately show ?thesis using Cons.IH Start by simp
  next
    case (End i ok mode h now)
    have "monitor_inv (end_operation pm i ok mode h now)"
      using Cons.prems(1) by (rule end_inv)
    moreover have "unat (total_operations (end_operation pm i ok mode h now))
        + length (filter is_start calls) < 2 ^ 64"
      using Cons.prems(2) End by (simp add: end_total)
    ultimately show ?thesis using Cons.IH End by simp
  qed
qed

lemma monitor_run_balanced:
  assumes "monitor_balanced pm"
    and "unat (total_operations pm) + length (filter is_start calls) < 2 ^ 64"
    and "ids_fresh pm calls"
  shows "monitor_balanced (monitor_run pm calls)"
  using assms unfolding monitor_run_def
proof (induction calls arbitrary: pm)
  case Nil
  then show ?case by simp
next
  case (Cons c calls)
  show ?case
  proof (cases c)
    case (Start i ty k now)
    have lt: "unat (total_operations pm) + 1 < 2 ^ 64"
      using Cons.prems(2) Start by simp
    have fr: "active_operations pm i = None" and rest: "ids_fresh (start_operation pm i ty k now) calls"
      using Cons.prems(3) Start by simp_all
    have "monitor_balanced (start_operation pm i ty k now)"
      using Cons.prems(1) lt fr by (rule start_balanced)
    moreover have "unat (total_operations (start_operation pm i ty k now))
        + length (filter is_start calls) < 2 ^ 64"
      using Cons.prems(2) Start start_total [OF lt, of i ty k now] by simp
    ultimately show ?thesis using Cons.IH rest Start by simp
  next
    case (End i ok mode h now)
    have rest: "ids_fresh (end_operation pm i ok mode h now) calls"
      using Cons.prems(3) End by simp
    have "monitor_balanced (end_operation pm i ok mode h now)"
      using Cons.prems(1) by (rule end_balanced)
    moreover have "unat (total_operations (end_operation pm i ok mode h now))
        + length (filter is_start calls) < 2 ^ 64"
      using Cons.prems(2) End by (simp add: end_total)
    ultimately show ?thesis using Cons.IH rest End by simp
  qed
qed

lemma success_rate_bounds:
  assumes "unat (successful_operations pm) \<le> unat (total_operations pm)"
  shows "0 \<le> get_success_rate pm \<and> get_success_rate pm \<le> 1"
proof (cases "total_operations pm > 0")
  case True
  then have "unat (total_operations pm) > 0"
    by (simp add: word_less_nat_alt)
  then have pos: "0 < real (unat (total_operations pm))"
    by (simp only: of_nat_0_less_iff)
  have le: "real (unat (successful_operations pm)) \<le> real (unat (total_operations pm))"
    using assms by (simp only: of_nat_le_iff)
  have nn: "0 \<le> real (unat (successful_operations pm))"
    by (rule of_nat_0_le_iff)
  have lo: "0 \<le> real (unat (successful_operations pm)) / real (unat (total_operations pm))"
  proof (rule divide_nonneg_nonneg)
    show "0 \<le> real (unat (successful_operations pm))" by (rule nn)
    show "0 \<le> real (unat (total_operations pm))" using pos by (rule less_imp_le)
  qed
  have hi: "real (unat (successful_operations pm)) / real (unat (total_operations pm)) \<le> 1"
    using pos le by (simp only: divide_le_eq_1_pos)
  have "get_success_rate pm
          = real (unat (successful_operations pm)) / real (unat (total_operations pm))"
    using True by (simp only: get_success_rate_def if_True)
  with lo hi show ?thesis by (simp only: simp_thms)
next
  case False
  then show ?thesis by (simp add: get_success_rate_def)
qed

text \<open>
  Claim C9, as stated, fails while an operation is pending: \<open>start_operation\<close> counts
  the operation in the total at once, \<open>end_operation\<close> counts its outcome later.
\<close>

theorem started_operation_counterexample:
  "total_operations (monitor_run (PerformanceMonitor_init 0) [Start 1 READ_REQUEST ''k'' 0]) = 1 \<and>
   successful_operations (monitor_run (PerformanceMonitor_init 0) [Start 1 READ_REQUEST ''k'' 0]) = 0 \<and>
   failed_operations (monitor_run (PerformanceMonitor_init 0) [Start 1 READ_REQUEST ''k'' 0]) = 0"
  by (simp add: monitor_run_def start_operation_def PerformanceMonitor_init_def)

text \<open>
  Claim C9, amended. After any interleaving of \<open>start_operation\<close> and \<open>end_operation\<close>
  calls with fewer than \<open>2^64\<close> starts, the successful and the failed operations
  together with the pending ones are at most the total, with equality as long as no
  operation is started under an id that is still pending; and \<open>get_success_rate\<close> lies
  between 0 and 1.
\<close>

theorem metrics_consistency:
  assumes "length (filter is_start calls) < 2 ^ 64"
  shows "unat (successful_operations (monitor_run (PerformanceMonitor_init t0) calls))
           + unat (failed_operations (monitor_run (PerformanceMonitor_init t0) calls))
           + card (dom (active_operations (monitor_run (PerformanceMonitor_init t0) calls)))
         \<le> unat (total_operations (monitor_run (PerformanceMonitor_init t0) calls))
       \<and> (ids_fresh (PerformanceMonitor_init t0) calls \<longrightarrow>
            unat (successful_operations (monitor_run (PerformanceMonitor_init t0) calls))
              + unat (failed_operations (monitor_run (PerformanceMonitor_init t0) calls))
              + card (dom (active_operations (monitor_run (PerformanceMonitor_init t0) calls)))
            = unat (total_operations (monitor_run (PerformanceMonitor_init t0) calls)))
       \<and> 0 \<le> get_success_rate (monitor_run (PerformanceMonitor_init t0) calls)
       \<and> get_success_rate (monitor_run (PerformanceMonitor_init t0) calls) \<le> 1"
proof -
  let ?pm = "PerformanceMonitor_init t0"
  have i0: "monitor_inv ?pm" and b0: "monitor_balanced ?pm"
    by (simp_all add: monitor_inv_def monitor_balanced_def PerformanceMonitor_init_def)
  have lt: "unat (total_operations ?pm) + length (filter is_start calls) < 2 ^ 64"
    using assms by (simp add: PerformanceMonitor_init_def)
  have inv: "monitor_inv (monitor_run ?pm calls)"
    using i0 lt by (rule monitor_run_inv)
  have bal: "ids_fresh ?pm calls \<Longrightarrow> monitor_balanced (monitor_run ?pm calls)"
    using b0 lt by (rule monitor_run_balanced)
  have le: "unat (successful_operations (monitor_run ?pm calls))
              \<le> unat (total_operations (monitor_run ?pm calls))"
    using inv by (simp add: monitor_inv_def)
  show ?thesis
    using inv bal success_rate_bounds [OF le] by (simp add: monitor_inv_def monitor_balanced_def)
qed

theorem metrics_consistency_witness:
  "length (filter is_start [Start 1 READ_REQUEST ''a'' 0, Start 2 WRITE_REQUEST ''b'' 5,
       End 1 True CHAIN_ONLY 1 2000, End 7 False QUORUM_ONLY 1 2500]) < 2 ^ 64
   \<and> ids_fresh (PerformanceMonitor_init 0) [Start 1 READ_REQUEST ''a'' 0, Start 2 WRITE_REQUEST ''b'' 5,
       End 1 True CHAIN_ONLY 1 2000, End 7 False QUORUM_ONLY 1 2500]
   \<and> successful_operations (monitor_run (PerformanceMonitor_init 0)
       [Start 1 READ_REQUEST ''a'' 0, Start 2 WRITE_REQUEST ''b'' 5,
        End 1 True CHAIN_ONLY 1 2000, End 7 False QUORUM_ONLY 1 2500]) = 1
   \<and> total_operations (monitor_run (PerformanceMonitor_init 0)
       [Start 1 READ_REQUEST ''a'' 0, Start 2 WRITE_REQUEST ''b'' 5,
        End 1 True CHAIN_ONLY 1 2000, End 7 False QUORUM_ONLY 1 2500]) = 2
   \<and> get_success_rate (monitor_run (PerformanceMonitor_init 0)
       [Start 1 READ_REQUEST ''a'' 0, Start 2 WRITE_REQUEST ''b'' 5,
        End 1 True CHAIN_ONLY 1 2000, End 7 False QUORUM_ONLY 1 2500]) \<le> 1"
  using metrics_consistency [of "[Start 1 READ_REQUEST ''a'' 0, Start 2 WRITE_REQUEST ''b'' 5,
       End 1 True CHAIN_ONLY 1 2000, End 7 False QUORUM_ONLY 1 2500]" 0]
  by (simp add: monitor_run_def start_operation_def end_operation_def PerformanceMonitor_init_def
      Let_def get_success_rate_def)

section \<open>Write consensus without responses\<close>

lemma failure_keeps_consensus_state:
  "active_proposals (Quorum_handle_node_failure q i) = active_proposals q \<and>
   failed_consensus (Quorum_handle_node_failure q i) = failed_consensus q \<and>
   successful_consensus (Quorum_handle_node_failure q i) = successful_consensus q"
  by (simp add: Quorum_handle_node_failure_def adjust_quorum_size_based_on_load_def Let_def)

lemma recovery_keeps_consensus_state:
  "active_proposals (Quorum_handle_node_recovery q i) = active_proposals q \<and>
   failed_consensus (Quorum_handle_node_recovery q i) = failed_consensus q \<and>
   successful_consensus (Quorum_handle_node_recovery q i) = successful_consensus q"
  by (simp add: Quorum_handle_node_recovery_def Let_def)

lemma non_response_step:
  assumes "\<not> is_response c"
  shows "active_proposals (snd (concurrent_step now (n, q) c)) = active_proposals q \<and>
         failed_consensus (snd (concurrent_step now (n, q) c)) = failed_consensus q \<and>
         successful_consensus (snd (concurrent_step now (n, q) c)) = successful_consensus q"
  using assms
  by (cases c) (simp_all add: failure_keeps_consensus_state recovery_keeps_consensus_state)

lemma non_response_calls:
  assumes "\<forall>c \<in> set calls. \<not> is_response c"
  shows "active_proposals (snd (run_calls now (n, q) calls)) = active_proposals q \<and>
         failed_consensus (snd (run_calls now (n, q) calls)) = failed_consensus q \<and>
         successful_consensus (snd (run_calls now (n, q) calls)) = successful_consensus q"
  using assms unfolding run_calls_def
proof (induction calls arbitrary: n q)
  case Nil
  then show ?case by simp
next
  case (Cons c calls)
  obtain n1 q1 where s: "concurrent_step now (n, q) c = (n1, q1)"
    by (cases "concurrent_step now (n, q) c")
  have nr: "\<not> is_response c" using Cons.prems by simp
  have k: "active_proposals q1 = active_proposals q \<and> failed_consensus q1 = failed_consensus q
           \<and> successful_consensus q1 = successful_consensus q"
    using non_response_step [OF nr, of now n q] s by simp
  have "\<forall>c \<in> set calls. \<not> is_response c" using Cons.prems by simp
  from Cons.IH [OF this, of n1 q1] k s show ?case by simp
qed

lemma write_wait_without_responses:
  assumes "\<forall>calls \<in> set polls. \<forall>c \<in> set calls. \<not> is_response c"
    and "active_proposals q pn = Some p" and "phase p \<noteq> COMMIT"
  shows "\<exists>n' q'. write_wait now pn k v (n, q) polls = (False, n', q') \<and>
           active_proposals q' = (active_proposals q)(pn := None) \<and>
           failed_consensus q' = failed_consensus q \<and>
           successful_consensus q' = successful_consensus q"
  using assms
proof (induction polls arbitrary: n q)
  case Nil
  show ?case
    by (intro exI [of _ n] exI [of _ "erase_proposal q pn"]) (simp add: erase_proposal_def)
next
  case (Cons calls polls)
  obtain n1 q1 where s: "run_calls now (n, q) calls = (n1, q1)"
    by (cases "run_calls now (n, q) calls")
  have nr: "\<forall>c \<in> set calls. \<not> is_response c" using Cons.prems(1) by simp
  have k: "active_proposals q1 = active_proposals q \<and> failed_consensus q1 = failed_consensus q
           \<and> successful_consensus q1 = successful_consensus q"
    using non_response_calls [OF nr, of now n q] s by simp
  have a1: "active_proposals q1 pn = Some p" using k Cons.prems(2) by simp
  have rest: "\<forall>calls \<in> set polls. \<forall>c \<in> set calls. \<not> is_response c"
    using Cons.prems(1) by simp
  from Cons.IH [OF rest a1 Cons.prems(3), of n1]
  obtain n' q' where w: "write_wait now pn k v (n1, q1) polls = (False, n', q')"
    and r: "active_proposals q' = (active_proposals q1)(pn := None)"
      "failed_consensus q' = failed_consensus q1" "successful_consensus q' = successful_consensus q1"
    by blast
  have ww: "write_wait now pn k v (n, q) (calls # polls) = (False, n', q')"
    using s a1 Cons.prems(3) w by simp
  have r1: "active_proposals q' = (active_proposals q)(pn := None)"
    using r(1) k by simp
  have r2: "failed_consensus q' = failed_consensus q"
    using r(2) k by simp
  have r3: "successful_consensus q' = successful_consensus q"
    using r(3) k by simp
  from ww r1 r2 r3 show ?case by blast
qed

text \<open>
  Claim C5. On a quorum of at least two members, when no call of \<open>handle_promise\<close> or
  \<open>handle_accepted\<close> arrives while the proposer polls, \<open>process_write\<close> returns false
  with \<open>success = false\<close> in the response, the table of active proposals is what it was
  before without an entry for the proposal, and \<open>failed_consensus\<close> has grown by one.
\<close>

theorem write_without_responses_fails:
  assumes "2 \<le> length (quorum_nodes q)"
    and "\<forall>calls \<in> set polls. \<forall>c \<in> set calls. \<not> is_response c"
  shows "\<exists>r n' q'. Quorum_process_write (n, q) request response now elapsed polls = (False, r, n', q') \<and>
           \<not> success r \<and>
           active_proposals q' (next_proposal_number q) = None \<and>
           active_proposals q' = (active_proposals q)(next_proposal_number q := None) \<and>
           failed_consensus q' = failed_consensus q + 1 \<and>
           successful_consensus q' = successful_consensus q"
proof -
  let ?pn = "next_proposal_number q"
  let ?ws = "\<lparr> proposal_number = ?pn, phase = PREPARE, qs_key = key request,
               qs_value = mvalue request, promised_nodes = {}, accepted_nodes = {},
               start_time = now \<rparr>"
  let ?q2 = "q\<lparr>next_proposal_number := ?pn + 1,
                active_proposals := (active_proposals q)(?pn \<mapsto> ?ws)\<rparr>"
  obtain n1 where sp: "send_prepare_messages n ?q2 now ?pn (key request) = (True, n1)"
    by (simp add: send_prepare_messages_def Let_def)
  have a: "active_proposals ?q2 ?pn = Some ?ws" by simp
  have ph: "phase ?ws \<noteq> COMMIT" by simp
  from write_wait_without_responses [OF assms(2) a ph, of now "key request" "mvalue request" n1]
  obtain n' q' where w: "write_wait now ?pn (key request) (mvalue request) (n1, ?q2) polls = (False, n', q')"
    and r: "active_proposals q' = (active_proposals ?q2)(?pn := None)"
      "failed_consensus q' = failed_consensus ?q2" "successful_consensus q' = successful_consensus ?q2"
    by blast
  have ic: "initiate_consensus (n, q) (key request) (mvalue request) now polls = (False, n', q')"
    using w sp by (simp add: initiate_consensus_def generate_proposal_number_def Let_def)
  have ne: "length (quorum_nodes q) \<noteq> 1" using assms(1) by simp
  show ?thesis
    using ne ic r by (simp add: Quorum_process_write_def Let_def)
qed

theorem write_without_responses_fails_witness:
  "2 \<le> length (quorum_nodes quorum_of_three_plain) \<and>
   \<not> fst (Quorum_process_write (node_one, quorum_of_three_plain) (write_request ''t'' ''x'')
            Message_init 0 0 [[], [Prepare (promise_from 2)], [NodeFailure 9], []]) \<and>
   active_proposals (snd (snd (snd (Quorum_process_write (node_one, quorum_of_three_plain)
            (write_request ''t'' ''x'') Message_init 0 0
            [[], [Prepare (promise_from 2)], [NodeFailure 9], []])))) = Map.empty \<and>
   failed_consensus (snd (snd (snd (Quorum_process_write (node_one, quorum_of_three_plain)
            (write_request ''t'' ''x'') Message_init 0 0
            [[], [Prepare (promise_from 2)], [NodeFailure 9], []])))) = 1"
proof -
  have h1: "2 \<le> length (quorum_nodes quorum_of_three_plain)"
    by (simp add: quorum_of_three_plain_def QuorumReplication_init_def)
  have h2: "\<forall>calls \<in> set [[], [Prepare (promise_from 2)], [NodeFailure 9], []].
              \<forall>c \<in> set calls. \<not> is_response c"
    by simp
  have e: "active_proposals quorum_of_three_plain = Map.empty"
    "failed_consensus quorum_of_three_plain = 0"
    by (simp_all add: quorum_of_three_plain_def QuorumReplication_init_def)
  from write_without_responses_fails [OF h1 h2, of node_one "write_request ''t'' ''x''" Message_init 0 0]
  obtain r n' q' where
    "Quorum_process_write (node_one, quorum_of_three_plain) (write_request ''t'' ''x'')
       Message_init 0 0 [[], [Prepare (promise_from 2)], [NodeFailure 9], []] = (False, r, n', q')"
    and "active_proposals q' = (active_proposals quorum_of_three_plain)
           (next_proposal_number quorum_of_three_plain := None)"
    and "failed_consensus q' = failed_consensus quorum_of_three_plain + 1"
    by blast
  with h1 e show ?thesis by simp
qed

section \<open>Read consensus\<close>

lemma state_at_poll_0:
  "state_at_poll now st (calls # polls) 0 = run_calls now st calls"
  by (simp add: state_at_poll_def)

lemma state_at_poll_Suc:
  "state_at_poll now st (calls # polls) (Suc i) = state_at_poll now (run_calls now st calls) polls i"
  by (simp add: state_at_poll_def)





section \<open>Majority detection\<close>

text \<open>
  Claim C1, as stated, fails once the quorum size has been adjusted: with seven members
  and an adjusted quorum size of 5, a proposal with four promises (or four acceptances)
  has its majority, although four is less than the quorum size.
\<close>

theorem adjusted_quorum_size_counterexample:
  "quorum_size quorum_of_seven_adjusted = 5 \<and>
   card (promised_nodes proposal_with_four) = 4 \<and>
   has_majority proposal_with_four (length (quorum_nodes quorum_of_seven_adjusted)) \<and>
   \<not> quorum_size quorum_of_seven_adjusted \<le> card (promised_nodes proposal_with_four) \<and>
   card (accepted_nodes proposal_with_four) = 4 \<and>
   has_accept_majority proposal_with_four (length (quorum_nodes quorum_of_seven_adjusted)) \<and>
   \<not> quorum_size quorum_of_seven_adjusted \<le> card (accepted_nodes proposal_with_four)"
  by (simp add: quorum_of_seven_adjusted_def proposal_with_four_def has_majority_def
      has_accept_majority_def adjust_quorum_size_based_on_load_def
      calculate_optimal_quorum_size_def get_consensus_success_rate_def
      QuorumReplication_init_def Let_def)

lemma handle_promise_phase:
  assumes "active_proposals q (ucast (sequence_number m)) = Some p"
  shows "\<exists>p'. active_proposals (snd (handle_promise (n, q) now m)) (ucast (sequence_number m)) = Some p'
           \<and> promised_nodes p' = insert (sender_id m) (promised_nodes p)
           \<and> phase p' = (if length (quorum_nodes q) div 2 + 1 \<le> card (promised_nodes p')
                          then ACCEPT else phase p)"
  using assms by (simp add: handle_promise_def has_majority_def Let_def)

lemma handle_accepted_phase:
  assumes "active_proposals q (ucast (sequence_number m)) = Some p"
  shows "\<exists>p'. active_proposals (handle_accepted q m) (ucast (sequence_number m)) = Some p'
           \<and> accepted_nodes p' = insert (sender_id m) (accepted_nodes p)
           \<and> phase p' = (if length (quorum_nodes q) div 2 + 1 \<le> card (accepted_nodes p')
                          then COMMIT else phase p)"
  using assms by (simp add: handle_accepted_def has_accept_majority_def Let_def)



lemma first_index_Suc:
  "(\<exists>i<Suc n. P i \<and> (\<forall>j<i. \<not> P j) \<and> D i)
     \<longleftrightarrow> (if P 0 then D 0 else (\<exists>i<n. P (Suc i) \<and> (\<forall>j<i. \<not> P (Suc j)) \<and> D (Suc i)))"
proof (cases "P 0")
  case True
  have "(\<exists>i<Suc n. P i \<and> (\<forall>j<i. \<not> P j) \<and> D i) \<longleftrightarrow> D 0"
  proof
    assume "\<exists>i<Suc n. P i \<and> (\<forall>j<i. \<not> P j) \<and> D i"
    then obtain i where i: "P i" "\<forall>j<i. \<not> P j" "D i" by blast
    have "i = 0" using i(2) True by (cases i) auto
    with i(3) show "D 0" by simp
  next
    assume "D 0"
    with True show "\<exists>i<Suc n. P i \<and> (\<forall>j<i. \<not> P j) \<and> D i" by auto
  qed
  with True show ?thesis by simp
next
  case False
  have "(\<exists>i<Suc n. P i \<and> (\<forall>j<i. \<not> P j) \<and> D i)
          \<longleftrightarrow> (\<exists>i<n. P (Suc i) \<and> (\<forall>j<i. \<not> P (Suc j)) \<and> D (Suc i))"
    using False by (simp add: Ex_less_Suc2 All_less_Suc2)
  with False show ?thesis by simp
qed

lemma promises_reach_0:
  "run_calls now st calls = (n1, q1) \<Longrightarrow>
   promises_reach_member_majority now pn st (calls # polls) 0
     \<longleftrightarrow> (\<exists>p. active_proposals q1 pn = Some p
               \<and> length (quorum_nodes q1) div 2 + 1 \<le> card (promised_nodes p))"
  by (simp add: promises_reach_member_majority_def state_at_poll_0 split: option.splits)

lemma promises_reach_Suc:
  "promises_reach_member_majority now pn st (calls # polls) (Suc i)
     = promises_reach_member_majority now pn (run_calls now st calls) polls i"
  by (simp add: promises_reach_member_majority_def state_at_poll_Suc)

lemma commit_reaches_0:
  "run_calls now st calls = (n1, q1) \<Longrightarrow>
   commit_reaches_member_majority now pn st (calls # polls) 0
     \<longleftrightarrow> (\<exists>p. active_proposals q1 pn = Some p \<and> phase p = COMMIT
               \<and> length (quorum_nodes q1) div 2 + 1 \<le> card (accepted_nodes p))"
  by (simp add: commit_reaches_member_majority_def state_at_poll_0 split: option.splits)

lemma commit_reaches_Suc:
  "commit_reaches_member_majority now pn st (calls # polls) (Suc i)
     = commit_reaches_member_majority now pn (run_calls now st calls) polls i"
  by (simp add: commit_reaches_member_majority_def state_at_poll_Suc)

lemma write_wait_success_iff:
  "fst (write_wait now pn k v st polls)
     \<longleftrightarrow> (\<exists>i<length polls. commit_reaches_member_majority now pn st polls i)"
proof (induction polls arbitrary: st)
  case Nil
  then show ?case by (cases st) simp
next
  case (Cons calls polls)
  obtain n q where st: "st = (n, q)" by (cases st)
  obtain n1 q1 where s: "run_calls now (n, q) calls = (n1, q1)"
    by (cases "run_calls now (n, q) calls")
  have c0: "commit_reaches_member_majority now pn st (calls # polls) 0
     \<longleftrightarrow> (\<exists>p. active_proposals q1 pn = Some p \<and> phase p = COMMIT
               \<and> length (quorum_nodes q1) div 2 + 1 \<le> card (accepted_nodes p))"
    using s st by (simp add: commit_reaches_0)
  have cS: "\<And>i. commit_reaches_member_majority now pn st (calls # polls) (Suc i)
     = commit_reaches_member_majority now pn (n1, q1) polls i"
    using s st by (simp add: commit_reaches_Suc)
  show ?case
  proof (cases "commit_reaches_member_majority now pn st (calls # polls) 0")
    case True
    then obtain p where p: "active_proposals q1 pn = Some p" "phase p = COMMIT"
       "length (quorum_nodes q1) div 2 + 1 \<le> card (accepted_nodes p)"
      using c0 by blast
    have "fst (write_wait now pn k v st (calls # polls))"
      using st s p by (simp add: has_accept_majority_def)
    moreover have "\<exists>i<length (calls # polls). commit_reaches_member_majority now pn st (calls # polls) i"
      using True by auto
    ultimately show ?thesis by simp
  next
    case False
    then have e: "write_wait now pn k v st (calls # polls) = write_wait now pn k v (n1, q1) polls"
      using st s c0 by (auto simp add: has_accept_majority_def split: option.splits)
    have "(\<exists>i<length (calls # polls). commit_reaches_member_majority now pn st (calls # polls) i)
            \<longleftrightarrow> (\<exists>i<length polls. commit_reaches_member_majority now pn (n1, q1) polls i)"
      using False by (simp add: Ex_less_Suc2 cS)
    then show ?thesis using e Cons.IH [of "(n1, q1)"] by simp
  qed
qed

lemma read_wait_success_iff:
  "fst (read_wait now elapsed pn k st polls) \<noteq> None
     \<longleftrightarrow> (\<exists>i<length polls. promises_reach_member_majority now pn st polls i
            \<and> (\<forall>j<i. \<not> promises_reach_member_majority now pn st polls j)
            \<and> data_store (fst (state_at_poll now st polls i)) k \<noteq> None)"
proof (induction polls arbitrary: st)
  case Nil
  then show ?case by (cases st) simp
next
  case (Cons calls polls)
  obtain n q where st: "st = (n, q)" by (cases st)
  obtain n1 q1 where s: "run_calls now (n, q) calls = (n1, q1)"
    by (cases "run_calls now (n, q) calls")
  have c0: "promises_reach_member_majority now pn st (calls # polls) 0
     \<longleftrightarrow> (\<exists>p. active_proposals q1 pn = Some p
               \<and> length (quorum_nodes q1) div 2 + 1 \<le> card (promised_nodes p))"
    using s st by (simp add: promises_reach_0)
  have cS: "\<And>i. promises_reach_member_majority now pn st (calls # polls) (Suc i)
     = promises_reach_member_majority now pn (n1, q1) polls i"
    using s st by (simp add: promises_reach_Suc)
  have d0: "fst (state_at_poll now st (calls # polls) 0) = n1"
    using s st by (simp add: state_at_poll_0)
  have dS: "\<And>i. state_at_poll now st (calls # polls) (Suc i) = state_at_poll now (n1, q1) polls i"
    using s st by (simp add: state_at_poll_Suc)
  have split: "(\<exists>i<length (calls # polls). promises_reach_member_majority now pn st (calls # polls) i
            \<and> (\<forall>j<i. \<not> promises_reach_member_majority now pn st (calls # polls) j)
            \<and> data_store (fst (state_at_poll now st (calls # polls) i)) k \<noteq> None)
      \<longleftrightarrow> (if promises_reach_member_majority now pn st (calls # polls) 0
           then data_store n1 k \<noteq> None
           else (\<exists>i<length polls. promises_reach_member_majority now pn (n1, q1) polls i
            \<and> (\<forall>j<i. \<not> promises_reach_member_majority now pn (n1, q1) polls j)
            \<and> data_store (fst (state_at_poll now (n1, q1) polls i)) k \<noteq> None))"
    using first_index_Suc [of "length polls"
        "\<lambda>i. promises_reach_member_majority now pn st (calls # polls) i"
        "\<lambda>i. data_store (fst (state_at_poll now st (calls # polls) i)) k \<noteq> None"]
    unfolding length_Cons by (simp only: cS dS d0)
  show ?case
  proof (cases "promises_reach_member_majority now pn st (calls # polls) 0")
    case True
    then obtain p where p: "active_proposals q1 pn = Some p"
       "length (quorum_nodes q1) div 2 + 1 \<le> card (promised_nodes p)"
      using c0 by blast
    have "fst (read_wait now elapsed pn k st (calls # polls)) \<noteq> None \<longleftrightarrow> data_store n1 k \<noteq> None"
      using st s p by (auto simp add: has_majority_def Node_read_def split: option.splits)
    then show ?thesis using True split by simp
  next
    case False
    then have e: "read_wait now elapsed pn k st (calls # polls) = read_wait now elapsed pn k (n1, q1) polls"
      using st s c0 by (auto simp add: has_majority_def split: option.splits)
    show ?thesis using e False split Cons.IH [of "(n1, q1)"] by simp
  qed
qed

lemma initiate_consensus_enters_loop:
  "initiate_consensus (n, q) k v now polls
     = write_wait now (next_proposal_number q) k v (write_consensus_entry (n, q) k v now) polls"
  by (simp add: initiate_consensus_def write_consensus_entry_def generate_proposal_number_def
      send_prepare_messages_def Let_def)

lemma process_read_success_iff:
  assumes "length (quorum_nodes q) \<noteq> 1"
    and "fst (try_fast_read (n, q) request) = None"
    and "begin_read_consensus (snd (try_fast_read (n, q) request), q) request now = (sent_ok, pn, n2, q2)"
  shows "fst (Quorum_process_read (n, q) request response now elapsed polls)
           \<longleftrightarrow> fst (read_wait now elapsed pn (key request) (n2, q2) polls) \<noteq> None"
proof -
  obtain n1 where f: "try_fast_read (n, q) request = (None, n1)"
    using assms(2) by (cases "try_fast_read (n, q) request") auto
  have ok: "sent_ok"
    using assms(3) by (auto simp add: begin_read_consensus_def generate_proposal_number_def
        send_prepare_messages_def Let_def)
  obtain rv n3 q3 where w: "read_wait now elapsed pn (key request) (n2, q2) polls = (rv, n3, q3)"
    by (cases "read_wait now elapsed pn (key request) (n2, q2) polls") auto
  show ?thesis
    using assms(1) assms(3) f ok w
    by (cases rv) (simp_all add: Quorum_process_read_def Let_def)
qed


text \<open>
  Claim C1, amended. Majority detection follows the member count, at each of its four
  call sites. \<open>has_majority\<close> holds iff the number of promised nodes is at least half the
  member count, rounded down, plus one, and \<open>has_accept_majority\<close> likewise for the
  accepted nodes; this is the quorum size as long as no adaptive adjustment has replaced
  it. \<open>handle_promise\<close> and \<open>handle_accepted\<close> add the sender to the tally and move the
  proposal to the next phase exactly on that threshold. \<open>initiate_consensus\<close> reports
  success iff at some poll before the deadline the proposal is in its \<open>COMMIT\<close> phase with
  that many accepted nodes, counted against the members of that moment. \<open>process_read\<close>,
  when the members are not the single one and the fast path does not answer, reports
  success iff at the first poll at which the promised nodes reach that threshold the local
  store holds the key.
\<close>

theorem majority_follows_member_count:
  "(has_majority p (length (quorum_nodes q))
      \<longleftrightarrow> length (quorum_nodes q) div 2 + 1 \<le> card (promised_nodes p)) \<and>
   (has_accept_majority p (length (quorum_nodes q))
      \<longleftrightarrow> length (quorum_nodes q) div 2 + 1 \<le> card (accepted_nodes p)) \<and>
   (natural_majority q \<longrightarrow>
      (has_majority p (length (quorum_nodes q)) \<longleftrightarrow> quorum_size q \<le> card (promised_nodes p)) \<and>
      (has_accept_majority p (length (quorum_nodes q)) \<longleftrightarrow> quorum_size q \<le> card (accepted_nodes p))) \<and>
   (active_proposals q (ucast (sequence_number m)) = Some p \<longrightarrow>
      (\<exists>p'. active_proposals (snd (handle_promise (n, q) now m)) (ucast (sequence_number m)) = Some p'
           \<and> promised_nodes p' = insert (sender_id m) (promised_nodes p)
           \<and> phase p' = (if length (quorum_nodes q) div 2 + 1 \<le> card (promised_nodes p')
                          then ACCEPT else phase p)) \<and>
      (\<exists>p'. active_proposals (handle_accepted q m) (ucast (sequence_number m)) = Some p'
           \<and> accepted_nodes p' = insert (sender_id m) (accepted_nodes p)
           \<and> phase p' = (if length (quorum_nodes q) div 2 + 1 \<le> card (accepted_nodes p')
                          then COMMIT else phase p))) \<and>
   (fst (initiate_consensus (n_w, q_w) k v now polls_w)
      \<longleftrightarrow> (\<exists>i<length polls_w.
             commit_reaches_member_majority now (next_proposal_number q_w)
               (write_consensus_entry (n_w, q_w) k v now) polls_w i)) \<and>
   (length (quorum_nodes q_r) \<noteq> 1 \<and> fst (try_fast_read (n_r, q_r) request) = None \<longrightarrow>
      (case begin_read_consensus (snd (try_fast_read (n_r, q_r) request), q_r) request now of
         (sent_ok, pn, n2, q2) \<Rightarrow>
           fst (Quorum_process_read (n_r, q_r) request response now elapsed polls_r)
             \<longleftrightarrow> (\<exists>i<length polls_r.
                    promises_reach_member_majority now pn (n2, q2) polls_r i
                    \<and> (\<forall>j<i. \<not> promises_reach_member_majority now pn (n2, q2) polls_r j)
                    \<and> data_store (fst (state_at_poll now (n2, q2) polls_r i)) (key request) \<noteq> None)))"
proof (intro conjI impI)
  show "has_majority p (length (quorum_nodes q))
      \<longleftrightarrow> length (quorum_nodes q) div 2 + 1 \<le> card (promised_nodes p)"
    by (simp add: has_majority_def)
  show "has_accept_majority p (length (quorum_nodes q))
      \<longleftrightarrow> length (quorum_nodes q) div 2 + 1 \<le> card (accepted_nodes p)"
    by (simp add: has_accept_majority_def)
  show "fst (initiate_consensus (n_w, q_w) k v now polls_w)
      \<longleftrightarrow> (\<exists>i<length polls_w.
             commit_reaches_member_majority now (next_proposal_number q_w)
               (write_consensus_entry (n_w, q_w) k v now) polls_w i)"
    by (simp only: initiate_consensus_enters_loop write_wait_success_iff)
next
  assume "natural_majority q"
  then show "has_majority p (length (quorum_nodes q)) \<longleftrightarrow> quorum_size q \<le> card (promised_nodes p)"
    by (simp add: has_majority_def natural_majority_def)
next
  assume "natural_majority q"
  then show "has_accept_majority p (length (quorum_nodes q)) \<longleftrightarrow> quorum_size q \<le> card (accepted_nodes p)"
    by (simp add: has_accept_majority_def natural_majority_def)
next
  assume "active_proposals q (ucast (sequence_number m)) = Some p"
  then show "\<exists>p'. active_proposals (snd (handle_promise (n, q) now m)) (ucast (sequence_number m)) = Some p'
           \<and> promised_nodes p' = insert (sender_id m) (promised_nodes p)
           \<and> phase p' = (if length (quorum_nodes q) div 2 + 1 \<le> card (promised_nodes p')
                          then ACCEPT else phase p)"
    by (rule handle_promise_phase)
next
  assume "active_proposals q (ucast (sequence_number m)) = Some p"
  then show "\<exists>p'. active_proposals (handle_accepted q m) (ucast (sequence_number m)) = Some p'
           \<and> accepted_nodes p' = insert (sender_id m) (accepted_nodes p)
           \<and> phase p' = (if length (quorum_nodes q) div 2 + 1 \<le> card (accepted_nodes p')
                          then COMMIT else phase p)"
    by (rule handle_accepted_phase)
next
  assume a: "length (quorum_nodes q_r) \<noteq> 1 \<and> fst (try_fast_read (n_r, q_r) request) = None"
  obtain sent_ok pn n2 q2 where
    b: "begin_read_consensus (snd (try_fast_read (n_r, q_r) request), q_r) request now
          = (sent_ok, pn, n2, q2)"
    by (cases "begin_read_consensus (snd (try_fast_read (n_r, q_r) request), q_r) request now") auto
  have "fst (Quorum_process_read (n_r, q_r) request response now elapsed polls_r)
          \<longleftrightarrow> fst (read_wait now elapsed pn (key request) (n2, q2) polls_r) \<noteq> None"
    by (rule process_read_success_iff [OF conjunct1 [OF a] conjunct2 [OF a] b])
  then have "fst (Quorum_process_read (n_r, q_r) request response now elapsed polls_r)
             \<longleftrightarrow> (\<exists>i<length polls_r.
                    promises_reach_member_majority now pn (n2, q2) polls_r i
                    \<and> (\<forall>j<i. \<not> promises_reach_member_majority now pn (n2, q2) polls_r j)
                    \<and> data_store (fst (state_at_poll now (n2, q2) polls_r i)) (key request) \<noteq> None)"
    by (simp only: read_wait_success_iff)
  then show "case begin_read_consensus (snd (try_fast_read (n_r, q_r) request), q_r) request now of
         (sent_ok, pn, n2, q2) \<Rightarrow>
           fst (Quorum_process_read (n_r, q_r) request response now elapsed polls_r)
             \<longleftrightarrow> (\<exists>i<length polls_r.
                    promises_reach_member_majority now pn (n2, q2) polls_r i
                    \<and> (\<forall>j<i. \<not> promises_reach_member_majority now pn (n2, q2) polls_r j)
                    \<and> data_store (fst (state_at_poll now (n2, q2) polls_r i)) (key request) \<noteq> None)"
    by (simp only: b prod.case)
qed

theorem majority_follows_member_count_witness:
  "natural_majority quorum_of_five \<and>
   active_proposals quorum_of_five (ucast (sequence_number reply_from_four)) = Some proposal_with_two \<and>
   (has_majority proposal_with_two (length (quorum_nodes quorum_of_five))
      \<longleftrightarrow> quorum_size quorum_of_five \<le> card (promised_nodes proposal_with_two)) \<and>
   (has_accept_majority proposal_with_two (length (quorum_nodes quorum_of_five))
      \<longleftrightarrow> quorum_size quorum_of_five \<le> card (accepted_nodes proposal_with_two)) \<and>
   (\<exists>p'. active_proposals (snd (handle_promise (node_one, quorum_of_five) 0 reply_from_four))
              (ucast (sequence_number reply_from_four)) = Some p'
         \<and> promised_nodes p' = insert (sender_id reply_from_four) (promised_nodes proposal_with_two)
         \<and> phase p' = (if length (quorum_nodes quorum_of_five) div 2 + 1 \<le> card (promised_nodes p')
                        then ACCEPT else phase proposal_with_two)) \<and>
   quorum_size quorum_of_seven_adjusted = 5 \<and>
   fst (initiate_consensus (node_one, quorum_of_seven_adjusted) ''k'' ''v'' 0
          [[Accepted (accepted_from 2), Accepted (accepted_from 3),
            Accepted (accepted_from 4), Accepted (accepted_from 5)]]) \<and>
   (\<exists>i<length [[Accepted (accepted_from 2), Accepted (accepted_from 3),
                 Accepted (accepted_from 4), Accepted (accepted_from 5)]].
      commit_reaches_member_majority 0 (next_proposal_number quorum_of_seven_adjusted)
        (write_consensus_entry (node_one, quorum_of_seven_adjusted) ''k'' ''v'' 0)
        [[Accepted (accepted_from 2), Accepted (accepted_from 3),
          Accepted (accepted_from 4), Accepted (accepted_from 5)]] i) \<and>
   length (quorum_nodes quorum_of_three_strict_reads) \<noteq> 1 \<and>
   fst (try_fast_read (node_one_with ''k'' ''v'', quorum_of_three_strict_reads) (read_request ''k'')) = None \<and>
   (case begin_read_consensus
           (snd (try_fast_read (node_one_with ''k'' ''v'', quorum_of_three_strict_reads) (read_request ''k'')),
            quorum_of_three_strict_reads) (read_request ''k'') 0 of
      (sent_ok, pn, n2, q2) \<Rightarrow>
        fst (Quorum_process_read (node_one_with ''k'' ''v'', quorum_of_three_strict_reads)
               (read_request ''k'') Message_init 0 0 [[Promise (promise_from 2)], [Promise (promise_from 3)]])
          \<longleftrightarrow> (\<exists>i<length [[Promise (promise_from 2)], [Promise (promise_from 3)]].
                 promises_reach_member_majority 0 pn (n2, q2)
                   [[Promise (promise_from 2)], [Promise (promise_from 3)]] i
                 \<and> (\<forall>j<i. \<not> promises_reach_member_majority 0 pn (n2, q2)
                               [[Promise (promise_from 2)], [Promise (promise_from 3)]] j)
                 \<and> data_store (fst (state_at_poll 0 (n2, q2)
                      [[Promise (promise_from 2)], [Promise (promise_from 3)]] i))
                      (key (read_request ''k'')) \<noteq> None))"
proof -
  have h1: "natural_majority quorum_of_five"
    by (simp add: quorum_of_five_def QuorumReplication_init_def natural_majority_def)
  have h2: "active_proposals quorum_of_five (ucast (sequence_number reply_from_four))
              = Some proposal_with_two"
    by (simp add: quorum_of_five_def reply_from_four_def Message_init_def)
  have h3: "quorum_size quorum_of_seven_adjusted = 5"
    by (simp add: quorum_of_seven_adjusted_def adjust_quorum_size_based_on_load_def
        calculate_optimal_quorum_size_def get_consensus_success_rate_def
        QuorumReplication_init_def Let_def)
  have h4: "fst (initiate_consensus (node_one, quorum_of_seven_adjusted) ''k'' ''v'' 0
          [[Accepted (accepted_from 2), Accepted (accepted_from 3),
            Accepted (accepted_from 4), Accepted (accepted_from 5)]])"
    by (simp add: initiate_consensus_def generate_proposal_number_def send_prepare_messages_def
        select_optimal_quorum_subset_def send_to_others_def send_message_def
        run_calls_def handle_accepted_def has_accept_majority_def accepted_from_def
        quorum_of_seven_adjusted_def adjust_quorum_size_based_on_load_def
        calculate_optimal_quorum_size_def get_consensus_success_rate_def
        QuorumReplication_init_def Message_init_def node_one_def Node_write_def
        erase_proposal_def Let_def)
  have h5: "length (quorum_nodes quorum_of_three_strict_reads) \<noteq> 1"
    by (simp add: quorum_of_three_strict_reads_def QuorumReplication_init_def)
  have h6: "fst (try_fast_read (node_one_with ''k'' ''v'', quorum_of_three_strict_reads)
                   (read_request ''k'')) = None"
    by (simp add: try_fast_read_def quorum_of_three_strict_reads_def QuorumReplication_init_def)
  note t = majority_follows_member_count
        [where p = proposal_with_two and q = quorum_of_five and m = reply_from_four
           and n = node_one and now = 0
           and n_w = node_one and q_w = quorum_of_seven_adjusted and k = "''k''" and v = "''v''"
           and polls_w = "[[Accepted (accepted_from 2), Accepted (accepted_from 3),
                            Accepted (accepted_from 4), Accepted (accepted_from 5)]]"
           and n_r = "node_one_with ''k'' ''v''" and q_r = quorum_of_three_strict_reads
           and request = "read_request ''k''" and response = Message_init and elapsed = 0
           and polls_r = "[[Promise (promise_from 2)], [Promise (promise_from 3)]]"]
  note t3 = t [THEN conjunct2, THEN conjunct2, THEN conjunct1, THEN mp, OF h1]
  note t4 = t [THEN conjunct2, THEN conjunct2, THEN conjunct2, THEN conjunct1, THEN mp, OF h2,
               THEN conjunct1]
  note t5 = t [THEN conjunct2, THEN conjunct2, THEN conjunct2, THEN conjunct2, THEN conjunct1,
               THEN iffD1, OF h4]
  note t6 = t [THEN conjunct2, THEN conjunct2, THEN conjunct2, THEN conjunct2, THEN conjunct2,
               THEN mp, OF conjI [OF h5 h6]]
  show ?thesis
    by (intro conjI) (rule h1 h2 t3 [THEN conjunct1] t3 [THEN conjunct2] t4 h3 h4 t5 h5 h6 t6)+
qed

section \<open>Round trip of the wire encoding\<close>

subsection \<open>Decimal numbers\<close>

lemma of_char_digit_char: "d < 10 \<Longrightarrow> (of_char (digit_char d) :: nat) = 48 + d"
  by (simp add: digit_char_def)

lemma isdigit_digit_char: "d < 10 \<Longrightarrow> isdigit (digit_char d)"
  by (simp add: isdigit_def of_char_digit_char)

lemma isdigit_not_special:
  assumes "isdigit c"
  shows "\<not> isspace c" "c \<noteq> CHR ''-''" "c \<noteq> CHR ''+''" "c \<noteq> CHR ''|''" "c \<noteq> CHR '',''"
  using assms by (auto simp add: isdigit_def isspace_def)

lemma dec_digits_nonempty: "dec_digits n \<noteq> []"
  by (subst dec_digits.simps) simp

lemma dec_digits_isdigit: "c \<in> set (dec_digits n) \<Longrightarrow> isdigit c"
proof (induction n arbitrary: c rule: dec_digits.induct)
  case (1 n)
  show ?case
  proof (cases "n < 10")
    case True
    then show ?thesis using "1.prems" by (subst (asm) dec_digits.simps) (simp add: isdigit_digit_char)
  next
    case False
    then have "c \<in> set (dec_digits (n div 10)) \<or> c = digit_char (n mod 10)"
      using "1.prems" by (subst (asm) dec_digits.simps) auto
    then show ?thesis
      using "1.IH" [OF False] by (auto simp add: isdigit_digit_char)
  qed
qed

lemma digits_value_snoc: "digits_value (ds @ [c]) = 10 * digits_value ds + (of_char c - 48)"
  by (simp add: digits_value_def)

lemma digits_value_dec_digits: "digits_value (dec_digits n) = n"
proof (induction n rule: dec_digits.induct)
  case (1 n)
  show ?case
  proof (cases "n < 10")
    case True
    then show ?thesis
      by (subst dec_digits.simps) (simp add: digits_value_def of_char_digit_char)
  next
    case False
    have "digits_value (dec_digits n)
            = 10 * digits_value (dec_digits (n div 10)) + (of_char (digit_char (n mod 10)) - 48)"
      using False by (subst dec_digits.simps) (simp add: digits_value_snoc)
    also have "\<dots> = 10 * (n div 10) + n mod 10"
      using "1.IH" [OF False] by (simp add: of_char_digit_char)
    finally show ?thesis by simp
  qed
qed

lemma scan_number_dec_digits: "scan_number (dec_digits n) = (False, dec_digits n)"
proof -
  obtain c r where cr: "dec_digits n = c # r"
    using dec_digits_nonempty [of n] by (cases "dec_digits n") auto
  have all: "\<And>x. x \<in> set (c # r) \<Longrightarrow> isdigit x"
    using dec_digits_isdigit [of _ n] cr by simp
  have c: "isdigit c" using all by simp
  have tw: "takeWhile isdigit (c # r) = c # r"
    using all by (simp only: takeWhile_eq_all_conv) blast
  have "scan_number (c # r) = (False, c # r)"
    using isdigit_not_special [OF c] tw by (simp add: scan_number_def)
  then show ?thesis by (simp add: cr)
qed

lemma stoul_dec_digits:
  assumes "n < 2 ^ 64"
  shows "stoul (dec_digits n) = Inr (word_of_nat n)"
  using assms
  by (simp add: stoul_def scan_number_dec_digits dec_digits_nonempty digits_value_dec_digits)

lemma stoul_unat32: "stoul (dec_digits (unat (w :: 32 word))) = Inr (ucast w)"
proof -
  have "unat w < 2 ^ 32" using unsigned_less [of w, where 'a = nat] by simp
  then have "unat w < 2 ^ 64" by simp
  then show ?thesis by (simp add: stoul_dec_digits)
qed

lemma stoul_unat64: "stoul (dec_digits (unat (w :: 64 word))) = Inr w"
proof -
  have "unat w < 2 ^ 64" using unsigned_less [of w, where 'a = nat] by simp
  then show ?thesis by (simp add: stoul_dec_digits)
qed

lemma ucast_ucast_32_64: "(ucast (ucast (w :: 32 word) :: 64 word) :: 32 word) = w"
  by (rule ucast_up_ucast_id) (simp add: is_up)

lemma MessageType_roundtrip: "MessageType_of_int (MessageType_to_int t) = Some t"
  by (cases t) (simp_all add: MessageType_of_int_def message_types_def)

lemma MessageType_to_int_range: "0 \<le> MessageType_to_int t \<and> MessageType_to_int t < 20"
  by (cases t) simp_all

lemma stoi_MessageType: "stoi (show_int (MessageType_to_int t)) = Inr (MessageType_to_int t)"
proof -
  have r: "0 \<le> MessageType_to_int t \<and> MessageType_to_int t < 20"
    by (rule MessageType_to_int_range)
  then show ?thesis
    by (simp add: stoi_def show_int_def scan_number_dec_digits dec_digits_nonempty
        digits_value_dec_digits Let_def)
qed


lemma getline_token:
  assumes "d \<notin> set tok"
  shows "getline (tok @ d # rest) d = Some (tok, rest)"
proof -
  have p: "\<And>x. x \<in> set tok \<Longrightarrow> x \<noteq> d" using assms by auto
  have t: "takeWhile (\<lambda>c. c \<noteq> d) (tok @ d # rest) = tok"
    using p by (simp add: takeWhile_append2)
  have dw: "dropWhile (\<lambda>c. c \<noteq> d) (tok @ d # rest) = d # rest"
    using p by (simp add: dropWhile_append2)
  show ?thesis by (simp add: getline_def t dw)
qed

lemma getline_last:
  assumes "d \<notin> set tok" and "tok \<noteq> []"
  shows "getline tok d = Some (tok, [])"
proof -
  have p: "\<And>x. x \<in> set tok \<Longrightarrow> x \<noteq> d" using assms by auto
  have t: "takeWhile (\<lambda>c. c \<noteq> d) tok = tok"
    using p by (simp only: takeWhile_eq_all_conv) blast
  have dw: "dropWhile (\<lambda>c. c \<noteq> d) tok = []"
    using p by (simp only: dropWhile_eq_Nil_conv) blast
  show ?thesis using assms(2) by (simp add: getline_def t dw)
qed

lemma parse_field_token:
  assumes "CHR ''|'' \<notin> set tok"
  shows "parse_field assign (Inr (msg, tok @ ''|'' @ rest))
           = (case assign tok msg of Inl e \<Rightarrow> Inl e | Inr msg' \<Rightarrow> Inr (msg', rest))"
  using getline_token [OF assms, of rest] by (simp add: parse_field_def)

lemma parse_field_last:
  assumes "CHR ''|'' \<notin> set tok"
  shows "parse_field assign_metadata (Inr (msg, tok))
           = (if tok = [] then Inr (msg, []) else Inr (msg\<lparr>metadata := tok\<rparr>, []))"
proof (cases "tok = []")
  case True
  then show ?thesis by (simp add: parse_field_def getline_def)
next
  case False
  then show ?thesis
    using getline_last [OF assms False] by (simp add: parse_field_def assign_metadata_def)
qed

lemma no_pipe_dec_digits: "CHR ''|'' \<notin> set (dec_digits n)"
  using dec_digits_isdigit [of "CHR ''|''" n] isdigit_not_special(4) [of "CHR ''|''"] by blast

lemma no_comma_dec_digits: "CHR '','' \<notin> set (dec_digits n)"
  using dec_digits_isdigit [of "CHR '',''" n] isdigit_not_special(5) [of "CHR '',''"] by blast

lemma no_pipe_show_type: "CHR ''|'' \<notin> set (show_int (MessageType_to_int t))"
  using MessageType_to_int_range [of t] by (simp add: show_int_def no_pipe_dec_digits)

lemma no_pipe_targets: "CHR ''|'' \<notin> set (targets_from i ts)"
  by (induction ts arbitrary: i) (simp_all add: no_pipe_dec_digits)

lemma parse_targets_Nil: "parse_targets [] = Inr []"
  by (subst parse_targets.simps) (simp add: getline_def)

lemma parse_targets_from:
  "parse_targets (dec_digits (unat t) @ targets_from (Suc i) ts) = Inr (t # ts)"
proof (induction ts arbitrary: t i)
  case Nil
  have "getline (dec_digits (unat t)) CHR '','' = Some (dec_digits (unat t), [])"
    using no_comma_dec_digits dec_digits_nonempty by (rule getline_last)
  then show ?case
    by (subst parse_targets.simps) (simp add: stoul_unat32 parse_targets_Nil ucast_ucast_32_64)
next
  case (Cons t' ts)
  have g: "getline (dec_digits (unat t) @ CHR '','' # dec_digits (unat t') @ targets_from (Suc (Suc i)) ts)
             CHR '','' = Some (dec_digits (unat t), dec_digits (unat t') @ targets_from (Suc (Suc i)) ts)"
    using no_comma_dec_digits by (rule getline_token)
  show ?case
    using g Cons.IH [of t' "Suc i"]
    by (subst parse_targets.simps) (simp add: stoul_unat32 ucast_ucast_32_64)
qed

lemma parse_field_token_Cons:
  assumes "CHR ''|'' \<notin> set tok"
  shows "parse_field assign (Inr (msg, tok @ CHR ''|'' # rest))
           = (case assign tok msg of Inl e \<Rightarrow> Inl e | Inr msg' \<Rightarrow> Inr (msg', rest))"
  using parse_field_token [OF assms, of assign msg rest] by simp

lemma assign_target_nodes_roundtrip:
  assumes "target_nodes msg = []"
  shows "assign_target_nodes (targets_from 0 ts) msg = Inr (msg\<lparr>target_nodes := ts\<rparr>)"
proof (cases ts)
  case Nil
  then show ?thesis using assms by (simp add: assign_target_nodes_def)
next
  case (Cons t ts')
  have ne: "dec_digits (unat t) @ targets_from (Suc 0) ts' \<noteq> []"
    using dec_digits_nonempty by simp
  show ?thesis
    using Cons ne parse_targets_from [of t 0 ts'] assms
    by (simp add: assign_target_nodes_def)
qed

lemma digit_char_values:
  "digit_char 0 = CHR ''0''" "digit_char 1 = CHR ''1''" "digit_char (Suc 0) = CHR ''1''"
  "digit_char 2 = CHR ''2''"
  "digit_char 3 = CHR ''3''" "digit_char 4 = CHR ''4''" "digit_char 5 = CHR ''5''"
  "digit_char 6 = CHR ''6''" "digit_char 7 = CHR ''7''" "digit_char 8 = CHR ''8''"
  "digit_char 9 = CHR ''9''"
  by (simp_all add: digit_char_def char_of_def bit_Suc_0_iff)

text \<open>
  Claim C7. A message whose key, value, correlation id and metadata contain no pipe
  character is read back by \<open>deserialize\<close> from its serialization unchanged in every
  field; empty strings and an empty list of targets are included.
\<close>

theorem deserialize_serialize:
  assumes "CHR ''|'' \<notin> set (key m)" and "CHR ''|'' \<notin> set (mvalue m)"
    and "CHR ''|'' \<notin> set (correlation_id m)" and "CHR ''|'' \<notin> set (metadata m)"
  shows "deserialize (serialize m) = Inr m"
proof -
  have s: "CHR ''|'' \<notin> set (if success m then ''1'' else ''0'')" by simp
  have "deserialize (serialize m)
          = Inr (Message_init\<lparr>mtype := mtype m, sender_id := sender_id m,
                   receiver_id := receiver_id m, key := key m, mvalue := mvalue m,
                   success := success m, timestamp := timestamp m,
                   sequence_number := sequence_number m, correlation_id := correlation_id m,
                   target_nodes := target_nodes m, metadata := metadata m\<rparr>)"
    unfolding deserialize_def serialize_def
    apply (simp only: parse_field_token [OF no_pipe_show_type] assign_type_def stoi_MessageType
        MessageType_roundtrip sum.case option.case)
    apply (simp only: parse_field_token [OF no_pipe_dec_digits] assign_sender_id_def
        assign_receiver_id_def stoul_unat32 sum.case ucast_ucast_32_64)
    apply (simp only: parse_field_token [OF assms(1)] parse_field_token [OF assms(2)]
        assign_key_def assign_value_def sum.case)
    apply (simp only: parse_field_token [OF s] assign_success_def sum.case)
    apply (simp only: parse_field_token [OF no_pipe_dec_digits] assign_timestamp_def
        assign_sequence_number_def stoull_def stoul_unat32 stoul_unat64 sum.case ucast_ucast_32_64)
    apply (simp only: parse_field_token [OF assms(3)] assign_correlation_id_def sum.case)
    apply (simp add: parse_field_token_Cons [OF no_pipe_targets] assign_target_nodes_roundtrip
        parse_field_last [OF assms(4)] Message_init_def)
    done
  then show ?thesis by (simp add: Message_init_def)
qed

theorem deserialize_serialize_witness:
  "CHR ''|'' \<notin> set (key Message_init) \<and> CHR ''|'' \<notin> set (mvalue Message_init) \<and>
   CHR ''|'' \<notin> set (correlation_id Message_init) \<and> CHR ''|'' \<notin> set (metadata Message_init) \<and>
   target_nodes Message_init = [] \<and>
   serialize Message_init = ''0|0|0|||0|0|0|||'' \<and>
   deserialize (serialize Message_init) = Inr Message_init"
proof -
  have h: "CHR ''|'' \<notin> set (key Message_init)" "CHR ''|'' \<notin> set (mvalue Message_init)"
    "CHR ''|'' \<notin> set (correlation_id Message_init)" "CHR ''|'' \<notin> set (metadata Message_init)"
    by (simp_all add: Message_init_def)
  have t: "target_nodes Message_init = []" by (simp add: Message_init_def)
  have s: "serialize Message_init = ''0|0|0|||0|0|0|||''"
    by (simp add: serialize_def Message_init_def show_int_def dec_digits.simps digit_char_values)
  show ?thesis
    using h t s deserialize_serialize [OF h] by simp
qed

text \<open>
  The encoding of a message with every field set, and what a pipe character in the key
  does: the fields after it shift by one.
\<close>

lemma serialize_sample:
  "serialize sample_message = ''2|1|3|k|v|1|98765|42|c-7|2,30|m''"
  by (simp add: serialize_def sample_message_def show_int_def dec_digits.simps digit_char_values)

lemma deserialize_sample:
  "deserialize ''2|1|3|k|v|1|98765|42|c-7|2,30|m'' = Inr sample_message"
proof -
  have "deserialize (serialize sample_message) = Inr sample_message"
    by (rule deserialize_serialize) (simp_all add: sample_message_def)
  then show ?thesis by (simp only: serialize_sample)
qed

lemma deserialize_pipe_in_key:
  "key (Message_init\<lparr>key := ''a|b''\<rparr>) = ''a|b'' \<and>
   deserialize (serialize (Message_init\<lparr>key := ''a|b''\<rparr>)) = Inr (Message_init\<lparr>key := ''a'', mvalue := ''b'', correlation_id := ''0''\<rparr>)"
  by (simp add: serialize_def deserialize_def Message_init_def show_int_def dec_digits.simps
      digit_char_values parse_field_def getline_def assign_type_def assign_sender_id_def
      assign_receiver_id_def assign_key_def assign_value_def assign_success_def
      assign_timestamp_def assign_sequence_number_def assign_correlation_id_def
      assign_target_nodes_def assign_metadata_def stoi_def stoul_def stoull_def scan_number_def
      isspace_def isdigit_def digits_value_def MessageType_of_int_def message_types_def)

section \<open>The read cache of the dispatcher\<close>

subsection \<open>One request at a time\<close>

lemma update_performance_metrics_keeps:
  "node (update_performance_metrics h rq lat ok) = node h"
  "chain_protocol (update_performance_metrics h rq lat ok) = chain_protocol h"
  "quorum_protocol (update_performance_metrics h rq lat ok) = quorum_protocol h"
  "cache (update_performance_metrics h rq lat ok) = cache h"
  "cache_ttl (update_performance_metrics h rq lat ok) = cache_ttl h"
  "cache_hits (update_performance_metrics h rq lat ok) = cache_hits h"
  "cache_misses (update_performance_metrics h rq lat ok) = cache_misses h"
  "caching_enabled (update_performance_metrics h rq lat ok) = caching_enabled h"
  "read_preference (update_performance_metrics h rq lat ok) = read_preference h"
  "write_preference (update_performance_metrics h rq lat ok) = write_preference h"
  "adaptive_switching_enabled (update_performance_metrics h rq lat ok) = adaptive_switching_enabled h"
  "intelligent_routing_enabled (update_performance_metrics h rq lat ok) = intelligent_routing_enabled h"
  "pattern (current_metrics (update_performance_metrics h rq lat ok)) = pattern (current_metrics h)"
  by (simp_all add: update_performance_metrics_def Let_def)

lemma read_mode_chain:
  assumes "read_preference h = CHAIN_ONLY"
  shows "(if adaptive_switching_enabled h then decide_protocol_for_read h else read_preference h)
           = CHAIN_ONLY"
  using assms by (simp add: decide_protocol_for_read_def)

lemma write_mode_quorum:
  assumes "write_preference h = QUORUM_ONLY" and "pattern (current_metrics h) \<noteq> BURSTY"
  shows "(if adaptive_switching_enabled h then decide_protocol_for_write h else write_preference h)
           = QUORUM_ONLY"
  using assms by (simp add: decide_protocol_for_write_def)

lemma chain_read_single:
  assumes "chain_order c = [node_id n]" and "my_position c = 0" and "data_store n k = Some v"
    and "key rq = k"
  shows "\<exists>r n'. Chain_process_read (n, c) rq resp now = (True, r, n', c) \<and> mvalue r = v
           \<and> data_store n' = data_store n \<and> node_id n' = node_id n"
  using assms by (simp add: Chain_process_read_def is_tail_def Node_read_def Let_def)

lemma quorum_write_single:
  assumes "length (quorum_nodes q) = 1"
  shows "\<exists>r n' q'. Quorum_process_write (n, q) rq resp now lat polls = (True, r, n', q')
           \<and> data_store n' = (data_store n)(key rq \<mapsto> mvalue rq) \<and> node_id n' = node_id n
           \<and> quorum_nodes q' = quorum_nodes q"
  using assms by (simp add: Quorum_process_write_def Node_write_def Let_def)

lemma update_cache_keeps:
  "node (update_cache h k v now) = node h"
  "chain_protocol (update_cache h k v now) = chain_protocol h"
  "quorum_protocol (update_cache h k v now) = quorum_protocol h"
  "cache_ttl (update_cache h k v now) = cache_ttl h"
  "cache_hits (update_cache h k v now) = cache_hits h"
  "cache_misses (update_cache h k v now) = cache_misses h"
  "caching_enabled (update_cache h k v now) = caching_enabled h"
  "read_preference (update_cache h k v now) = read_preference h"
  "write_preference (update_cache h k v now) = write_preference h"
  "current_metrics (update_cache h k v now) = current_metrics h"
  by (simp_all add: update_cache_def Let_def)

lemma length_alist_update: "length (AList.update k v al) \<le> length al + 1"
  by (induction al) auto

lemma update_cache_not_full:
  assumes "length (cache h) < 1000"
  shows "cache (update_cache h k v now) = AList.update k (v, now) (cache h)"
proof -
  have "length (AList.update k (v, now) (cache h)) \<le> length (cache h) + 1"
    by (rule length_alist_update)
  then show ?thesis using assms by (simp add: update_cache_def Let_def)
qed

lemma read_miss:
  assumes s: "single_node_dispatcher h" and c: "map_of (cache h) k = None"
    and d: "data_store (node h) k = Some v" and kq: "key rq = k"
  shows "\<exists>r h'. Hybrid_process_read h rq resp now lat polls = (True, r, h') \<and> mvalue r = v
           \<and> cache_misses h' = cache_misses h + 1 \<and> cache_hits h' = cache_hits h
           \<and> single_node_dispatcher h' \<and> data_store (node h') = data_store (node h)
           \<and> cache_ttl h' = cache_ttl h
           \<and> (length (cache h) < 1000 \<longrightarrow> map_of (cache h') k = Some (v, now))"
proof -
  have ce: "caching_enabled h" and rp: "read_preference h = CHAIN_ONLY"
    and co: "chain_order (chain_protocol h) = [node_id (node h)]"
    and mp: "my_position (chain_protocol h) = 0"
    using s by (simp_all add: single_node_dispatcher_def)
  let ?h2 = "h\<lparr>cache_misses := cache_misses h + 1\<rparr>"
  have tc: "try_cache_read h k now = (None, h)"
    using c by (simp add: try_cache_read_def)
  have md: "(if adaptive_switching_enabled ?h2 then decide_protocol_for_read ?h2
             else read_preference ?h2) = CHAIN_ONLY"
    using rp by (simp add: decide_protocol_for_read_def)
  from chain_read_single [OF co mp d kq, of resp now]
  obtain r n' where cr: "Chain_process_read (node h, chain_protocol h) rq resp now
                           = (True, r, n', chain_protocol h)"
    and rv: "mvalue r = v" and ds: "data_store n' = data_store (node h)"
    and ni: "node_id n' = node_id (node h)"
    by blast
  let ?h3 = "?h2\<lparr>node := n', chain_protocol := chain_protocol h,
                  chain_operations := chain_operations h + 1\<rparr>"
  let ?h4 = "update_cache ?h3 k v now"
  have res: "Hybrid_process_read h rq resp now lat polls
          = (True, r, update_performance_metrics ?h4 rq lat True)"
    using ce kq tc cr rv rp by (simp add: Hybrid_process_read_def decide_protocol_for_read_def Let_def)
  have uc_cache: "length (cache h) < 1000 \<Longrightarrow> cache ?h4 = AList.update k (v, now) (cache h)"
    using update_cache_not_full [of ?h3 k v now] by simp
  have sd: "single_node_dispatcher (update_performance_metrics ?h4 rq lat True)"
    using s ni by (simp add: single_node_dispatcher_def update_performance_metrics_keeps
        update_cache_keeps)
  show ?thesis
    using res rv sd ds uc_cache
    by (simp add: update_performance_metrics_keeps update_cache_keeps update_conv')
qed

lemma read_hit:
  assumes "caching_enabled h" and "map_of (cache h) k = Some (v, t)" and "now - t < cache_ttl h"
    and "key rq = k"
  shows "\<exists>r. Hybrid_process_read h rq resp now lat polls = (True, r, h\<lparr>cache_hits := cache_hits h + 1\<rparr>)
           \<and> mvalue r = v"
  using assms by (simp add: Hybrid_process_read_def try_cache_read_def)

lemma write_through_quorum:
  assumes s: "single_node_dispatcher h" and kq: "key rq = k" and vq: "mvalue rq = v'"
  shows "\<exists>r h'. Hybrid_process_write h rq resp now lat polls = (True, r, h')
           \<and> map_of (cache h') k = None \<and> data_store (node h') k = Some v'
           \<and> single_node_dispatcher h' \<and> cache_misses h' = cache_misses h
           \<and> cache_hits h' = cache_hits h"
proof -
  have ce: "caching_enabled h" and wp: "write_preference h = QUORUM_ONLY"
    and pt: "pattern (current_metrics h) \<noteq> BURSTY"
    and ql: "length (quorum_nodes (quorum_protocol h)) = 1"
    using s by (simp_all add: single_node_dispatcher_def)
  let ?h1 = "h\<lparr>cache := AList.delete k (cache h)\<rparr>"
  have md: "(if adaptive_switching_enabled ?h1 then decide_protocol_for_write ?h1
             else write_preference ?h1) = QUORUM_ONLY"
    using wp pt by (simp add: decide_protocol_for_write_def)
  from quorum_write_single [OF ql, of "node h" rq resp now lat polls]
  obtain r n' q' where qw: "Quorum_process_write (node h, quorum_protocol h) rq resp now lat polls
                              = (True, r, n', q')"
    and ds: "data_store n' = (data_store (node h))(key rq \<mapsto> mvalue rq)"
    and ni: "node_id n' = node_id (node h)" and qn: "quorum_nodes q' = quorum_nodes (quorum_protocol h)"
    by blast
  let ?h2 = "?h1\<lparr>node := n', quorum_protocol := q',
                  quorum_operations := quorum_operations h + 1\<rparr>"
  have res: "Hybrid_process_write h rq resp now lat polls
          = (True, r, update_performance_metrics ?h2 rq lat True)"
    using ce kq qw wp pt by (simp add: Hybrid_process_write_def decide_protocol_for_write_def Let_def)
  have sd: "single_node_dispatcher (update_performance_metrics ?h2 rq lat True)"
    using s ni qn by (simp add: single_node_dispatcher_def update_performance_metrics_keeps)
  have mc: "map_of (AList.delete k (cache h)) k = None"
    by (simp add: delete_conv')
  show ?thesis
    using res sd ds kq vq mc by (simp add: update_performance_metrics_keeps)
qed

subsection \<open>Writes sent to the chain\<close>

lemmas dispatcher_eval =
  dispatcher_chain_writes_def HybridProtocol_init_def
  Hybrid_process_read_def Hybrid_process_write_def try_cache_read_def update_cache_def
  Chain_process_read_def Chain_process_write_def is_tail_def is_head_def
  ChainReplication_init_def find_my_position_def QuorumReplication_init_def
  AdaptiveMetrics_init_def node_one_with_def node_one_def
  Node_read_def read_request_def write_request_def Message_init_def
  update_performance_metrics_def is_read_operation_def is_write_operation_def Let_def

lemma chain_writes_first_read:
  "fst (Hybrid_process_read dispatcher_chain_writes (read_request ''k'') Message_init 10 1 []) \<and>
   mvalue (fst (snd (Hybrid_process_read dispatcher_chain_writes (read_request ''k'')
                       Message_init 10 1 []))) = ''v'' \<and>
   cache_misses after_first_read = 1 \<and> cache_hits after_first_read = 0 \<and>
   cache after_first_read = [(''k'', (''v'', 10))] \<and>
   cache_ttl after_first_read = 30000000 \<and> caching_enabled after_first_read \<and>
   \<not> adaptive_switching_enabled after_first_read \<and>
   write_preference after_first_read = CHAIN_ONLY \<and>
   read_preference after_first_read = CHAIN_ONLY \<and>
   chain_protocol after_first_read = chain_protocol dispatcher_chain_writes \<and>
   data_store (node after_first_read) = [''k'' \<mapsto> ''v''] \<and>
   node_id (node after_first_read) = 1 \<and> sent (node after_first_read) = []"
  by (simp add: after_first_read_def dispatcher_eval)

lemma chain_writes_second_read:
  "fst (Hybrid_process_read after_first_read (read_request ''k'') Message_init 20 1 []) \<and>
   mvalue (fst (snd (Hybrid_process_read after_first_read (read_request ''k'')
                       Message_init 20 1 []))) = ''v'' \<and>
   after_second_read = after_first_read\<lparr>cache_hits := 1\<rparr>"
proof -
  have k: "key (read_request ''k'') = ''k''" by (simp add: read_request_def)
  have c: "caching_enabled after_first_read"
    and m: "map_of (cache after_first_read) ''k'' = Some (''v'', 10)"
    and t: "20 - 10 < cache_ttl after_first_read"
    and z: "cache_hits after_first_read = 0"
    using chain_writes_first_read by simp_all
  from read_hit [OF c m t k, of Message_init 1 "[]"] z
  show ?thesis by (auto simp add: after_second_read_def)
qed

lemma chain_writes_write:
  "fst (Hybrid_process_write after_second_read (write_request ''k'' ''w'') Message_init 30 1 []) \<and>
   success (fst (snd (Hybrid_process_write after_second_read (write_request ''k'' ''w'')
                        Message_init 30 1 []))) \<and>
   cache after_chain_write = [] \<and> cache_misses after_chain_write = 1 \<and>
   cache_hits after_chain_write = 1 \<and> caching_enabled after_chain_write \<and>
   \<not> adaptive_switching_enabled after_chain_write \<and>
   read_preference after_chain_write = CHAIN_ONLY \<and>
   chain_order (chain_protocol after_chain_write) = [1] \<and>
   my_position (chain_protocol after_chain_write) = 0 \<and>
   write_batch (chain_protocol after_chain_write) = [write_request ''k'' ''w''] \<and>
   data_store (node after_chain_write) = [''k'' \<mapsto> ''v''] \<and>
   node_id (node after_chain_write) = 1 \<and> sent (node after_chain_write) = []"
  using chain_writes_first_read
  by (simp add: after_chain_write_def chain_writes_second_read Hybrid_process_write_def
      Chain_process_write_def is_head_def dispatcher_chain_writes_def HybridProtocol_init_def
      ChainReplication_init_def find_my_position_def node_one_with_def node_one_def
      update_performance_metrics_def write_request_def Message_init_def
      is_read_operation_def is_write_operation_def Let_def)

text \<open>
  Claim C8, as stated, fails for the dispatcher of the caching test (caching on, reads and
  writes both sent to the chain, node 1 alone, \<open>k \<mapsto> v\<close> in the store): the write of
  \<open>w\<close> succeeds and empties the cache, but the head only appends it to its batch, so
  the next read finds \<open>v\<close> in the store.
\<close>

theorem chain_write_counterexample:
  "caching_enabled dispatcher_chain_writes \<and>
   read_preference dispatcher_chain_writes = CHAIN_ONLY \<and>
   chain_order (chain_protocol dispatcher_chain_writes) = [1] \<and>
   quorum_nodes (quorum_protocol dispatcher_chain_writes) = [1] \<and>
   data_store (node dispatcher_chain_writes) ''k'' = Some ''v'' \<and>
   fst (Hybrid_process_read dispatcher_chain_writes (read_request ''k'') Message_init 10 1 []) \<and>
   fst (Hybrid_process_read after_first_read (read_request ''k'') Message_init 20 1 []) \<and>
   fst (Hybrid_process_write after_second_read (write_request ''k'' ''w'') Message_init 30 1 []) \<and>
   fst (Hybrid_process_read after_chain_write (read_request ''k'') Message_init 40 1 []) \<and>
   mvalue (fst (snd (Hybrid_process_read after_chain_write (read_request ''k'')
                       Message_init 40 1 []))) = ''v'' \<and>
   data_store (node after_chain_write) ''k'' = Some ''v''"
proof -
  have a: "caching_enabled dispatcher_chain_writes \<and>
      read_preference dispatcher_chain_writes = CHAIN_ONLY \<and>
      chain_order (chain_protocol dispatcher_chain_writes) = [1] \<and>
      quorum_nodes (quorum_protocol dispatcher_chain_writes) = [1] \<and>
      data_store (node dispatcher_chain_writes) ''k'' = Some ''v''"
    by (simp add: dispatcher_eval)
  have b: "fst (Hybrid_process_read after_chain_write (read_request ''k'') Message_init 40 1 []) \<and>
      mvalue (fst (snd (Hybrid_process_read after_chain_write (read_request ''k'')
                       Message_init 40 1 []))) = ''v''"
    using chain_writes_write
    by (simp add: Hybrid_process_read_def try_cache_read_def Chain_process_read_def is_tail_def
        Node_read_def read_request_def Message_init_def Let_def)
  show ?thesis
    using a b chain_writes_first_read chain_writes_second_read chain_writes_write by simp
qed

subsection \<open>Writes sent to the quorum coordinator\<close>

text \<open>
  Claim C8, amended. Let the dispatcher have caching on, read preference
  \<open>CHAIN_ONLY\<close>, the node alone in chain and quorum, and let writes go to the quorum
  coordinator (write preference \<open>QUORUM_ONLY\<close>, workload pattern not \<open>BURSTY\<close>);
  let the cache hold no entry for \<open>k\<close> and fewer than 1000 entries, and the store
  \<open>k \<mapsto> v\<close>. Then the first read of \<open>k\<close> returns \<open>v\<close> and counts a miss, a second
  read within the time to live returns \<open>v\<close> and counts a hit, a write of \<open>v'\<close> removes
  \<open>k\<close> from the cache, and the read after it returns \<open>v'\<close> and counts a miss.
\<close>

theorem cache_scenario:
  assumes s: "single_node_dispatcher h" and c: "map_of (cache h) k = None"
    and f: "length (cache h) < 1000" and d: "data_store (node h) k = Some v"
    and r: "key read_rq = k" and w: "key write_rq = k" "mvalue write_rq = v'"
    and ttl: "t_b - t_a < cache_ttl h"
  shows "(case Hybrid_process_read h read_rq resp_a t_a lat_a polls_a of (ok_a, r_a, h_a) \<Rightarrow>
            ok_a \<and> mvalue r_a = v \<and> cache_misses h_a = cache_misses h + 1
            \<and> cache_hits h_a = cache_hits h \<and>
            (case Hybrid_process_read h_a read_rq resp_b t_b lat_b polls_b of (ok_b, r_b, h_b) \<Rightarrow>
               ok_b \<and> mvalue r_b = v \<and> cache_hits h_b = cache_hits h_a + 1
               \<and> cache_misses h_b = cache_misses h_a \<and>
               (case Hybrid_process_write h_b write_rq resp_c t_c lat_c polls_c of (ok_c, r_c, h_c) \<Rightarrow>
                  ok_c \<and> map_of (cache h_c) k = None \<and>
                  (case Hybrid_process_read h_c read_rq resp_d t_d lat_d polls_d of (ok_d, r_d, h_d) \<Rightarrow>
                     ok_d \<and> mvalue r_d = v' \<and> cache_misses h_d = cache_misses h_c + 1
                     \<and> cache_hits h_d = cache_hits h_c))))"
proof -
  from read_miss [OF s c d r, of resp_a t_a lat_a polls_a]
  obtain r1 h1 where e1: "Hybrid_process_read h read_rq resp_a t_a lat_a polls_a = (True, r1, h1)"
    and v1: "mvalue r1 = v" and m1: "cache_misses h1 = cache_misses h + 1"
    and c1: "cache_hits h1 = cache_hits h" and s1: "single_node_dispatcher h1"
    and ttl1: "cache_ttl h1 = cache_ttl h"
    and k1: "length (cache h) < 1000 \<longrightarrow> map_of (cache h1) k = Some (v, t_a)"
    by blast
  have ce1: "caching_enabled h1" using s1 by (simp add: single_node_dispatcher_def)
  have in1: "map_of (cache h1) k = Some (v, t_a)" using k1 f by simp
  have fresh: "t_b - t_a < cache_ttl h1" using ttl ttl1 by simp
  let ?h2 = "h1\<lparr>cache_hits := cache_hits h1 + 1\<rparr>"
  from read_hit [OF ce1 in1 fresh r, of resp_b lat_b polls_b]
  obtain r2 where e2: "Hybrid_process_read h1 read_rq resp_b t_b lat_b polls_b = (True, r2, ?h2)"
    and v2: "mvalue r2 = v"
    by blast
  have s2: "single_node_dispatcher ?h2" using s1 by (simp add: single_node_dispatcher_def)
  from write_through_quorum [OF s2 w, of resp_c t_c lat_c polls_c]
  obtain r3 h3 where e3: "Hybrid_process_write ?h2 write_rq resp_c t_c lat_c polls_c = (True, r3, h3)"
    and k3: "map_of (cache h3) k = None" and d3: "data_store (node h3) k = Some v'"
    and s3: "single_node_dispatcher h3"
    by blast
  from read_miss [OF s3 k3 d3 r, of resp_d t_d lat_d polls_d]
  obtain r4 h4 where e4: "Hybrid_process_read h3 read_rq resp_d t_d lat_d polls_d = (True, r4, h4)"
    and v4: "mvalue r4 = v'" and m4: "cache_misses h4 = cache_misses h3 + 1"
    and c4: "cache_hits h4 = cache_hits h3"
    by blast
  show ?thesis
    unfolding e1 e2 e3 e4 prod.case
    by (simp add: v1 m1 c1 v2 k3 v4 m4 c4)
qed

lemma fresh_dispatcher_single:
  "single_node_dispatcher (HybridProtocol_init (node_one_with k v) [1] [1])"
  by (simp add: single_node_dispatcher_def HybridProtocol_init_def ChainReplication_init_def
      find_my_position_def QuorumReplication_init_def AdaptiveMetrics_init_def
      node_one_with_def node_one_def)

theorem cache_scenario_witness:
  "single_node_dispatcher (HybridProtocol_init (node_one_with ''k'' ''v'') [1] [1]) \<and>
   map_of (cache (HybridProtocol_init (node_one_with ''k'' ''v'') [1] [1])) ''k'' = None \<and>
   length (cache (HybridProtocol_init (node_one_with ''k'' ''v'') [1] [1])) < 1000 \<and>
   data_store (node (HybridProtocol_init (node_one_with ''k'' ''v'') [1] [1])) ''k'' = Some ''v'' \<and>
   key (read_request ''k'') = ''k'' \<and> key (write_request ''k'' ''w'') = ''k'' \<and>
   mvalue (write_request ''k'' ''w'') = ''w'' \<and>
   (20 :: u64) - 10 < cache_ttl (HybridProtocol_init (node_one_with ''k'' ''v'') [1] [1]) \<and>
   (case Hybrid_process_read (HybridProtocol_init (node_one_with ''k'' ''v'') [1] [1])
           (read_request ''k'') Message_init 10 1 [] of (ok_a, r_a, h_a) \<Rightarrow>
      ok_a \<and> mvalue r_a = ''v''
      \<and> cache_misses h_a = cache_misses (HybridProtocol_init (node_one_with ''k'' ''v'') [1] [1]) + 1
      \<and> cache_hits h_a = cache_hits (HybridProtocol_init (node_one_with ''k'' ''v'') [1] [1]) \<and>
      (case Hybrid_process_read h_a (read_request ''k'') Message_init 20 1 [] of (ok_b, r_b, h_b) \<Rightarrow>
         ok_b \<and> mvalue r_b = ''v'' \<and> cache_hits h_b = cache_hits h_a + 1
         \<and> cache_misses h_b = cache_misses h_a \<and>
         (case Hybrid_process_write h_b (write_request ''k'' ''w'') Message_init 30 1 [] of
            (ok_c, r_c, h_c) \<Rightarrow>
            ok_c \<and> map_of (cache h_c) ''k'' = None \<and>
            (case Hybrid_process_read h_c (read_request ''k'') Message_init 40 1 [] of
               (ok_d, r_d, h_d) \<Rightarrow>
               ok_d \<and> mvalue r_d = ''w'' \<and> cache_misses h_d = cache_misses h_c + 1
               \<and> cache_hits h_d = cache_hits h_c))))"
proof -
  let ?h = "HybridProtocol_init (node_one_with ''k'' ''v'') [1] [1]"
  have s: "single_node_dispatcher ?h" by (rule fresh_dispatcher_single)
  have c: "map_of (cache ?h) ''k'' = None" and f: "length (cache ?h) < 1000"
    and ttl: "(20 :: u64) - 10 < cache_ttl ?h"
    by (simp_all add: HybridProtocol_init_def)
  have d: "data_store (node ?h) ''k'' = Some ''v''"
    by (simp add: HybridProtocol_init_def node_one_with_def)
  have r: "key (read_request ''k'') = ''k''" by (simp add: read_request_def)
  have w: "key (write_request ''k'' ''w'') = ''k''" "mvalue (write_request ''k'' ''w'') = ''w''"
    by (simp_all add: write_request_def)
  from s c f d r w ttl
    cache_scenario [OF s c f d r w ttl, where resp_a = Message_init and lat_a = 1 and polls_a = "[]"
      and resp_b = Message_init and lat_b = 1 and polls_b = "[]"
      and resp_c = Message_init and t_c = 30 and lat_c = 1 and polls_c = "[]"
      and resp_d = Message_init and t_d = 40 and lat_d = 1 and polls_d = "[]"]
  show ?thesis by blast
qed

end
